theory Spec2Isabelle
  imports Complex_Main
begin

section \<open>The subharmonic generator: data and constants\<close>

text \<open>
  The source file \<^verbatim>\<open>src/subharmonicon.cpp\<close> holds two revisions of the program, one
  after the other. The model follows the later revision (lines 229 to 551). The earlier
  one (lines 1 to 227) differs from it in what matters here as follows: \<^verbatim>\<open>Quantize\<close> has no
  clamp of the pitch, \<^verbatim>\<open>UpdateEncoder\<close> has no \<^verbatim>\<open>last_encoder_pressed\<close> flag and toggles the
  menu page in every round in which the button is pressed, there are 3 scales instead of
  25, and \<^verbatim>\<open>UpdateEncoder\<close> is called from the audio callback instead of the main loop.

  Arithmetic on \<^verbatim>\<open>float\<close> is modelled by exact arithmetic on \<^typ>\<open>real\<close>: \<^verbatim>\<open>log2f\<close> is
  \<^term>\<open>log 2\<close>, \<^verbatim>\<open>powf\<close> is \<^term>\<open>(powr)\<close>, \<^verbatim>\<open>floorf\<close> is \<^term>\<open>floor\<close>. Rounding
  errors are outside the model. The target is the Daisy Patch (a 32-bit Cortex-M7),
  where \<^verbatim>\<open>int\<close> and \<^verbatim>\<open>size_t\<close> are 32 bits wide.
\<close>

datatype DisplayMode = WAVEFORM | XY

datatype MenuState = SCALE_SELECTION | ROOT_NOTE_SELECTION

definition kNumSubharmonics :: nat where
  "kNumSubharmonics = 4"

definition kWaveformBufferSize :: nat where
  "kWaveformBufferSize = 128"

definition kNumScales :: nat where
  "kNumScales = 25"

definition kNumNotes :: nat where
  "kNumNotes = 12"

definition kNumOctaves :: nat where
  "kNumOctaves = 9"

text \<open>The table \<^verbatim>\<open>scales\<close> of lines 272 to 298, a vector of vectors of \<^verbatim>\<open>float\<close>.\<close>

definition scales :: "real list list" where
  "scales =
    [[0, 2, 4, 5, 7, 9, 11],
     [0, 2, 3, 5, 7, 8, 10],
     [0, 2, 5, 7, 9],
     [0, 2, 3, 5, 7, 9, 10],
     [0, 1, 3, 5, 7, 8, 10],
     [0, 2, 4, 6, 7, 9, 11],
     [0, 2, 4, 5, 7, 9, 10],
     [0, 1, 3, 5, 6, 8, 10],
     [0, 2, 4, 6, 8, 10],
     [0, 1, 2, 3, 4, 5, 6, 7, 8, 9, 10, 11],
     [0, 3, 5, 6, 7, 10],
     [0, 2, 3, 5, 7, 8, 11],
     [0, 2, 3, 5, 7, 9, 11],
     [0, 1, 4, 5, 7, 8, 11],
     [0, 1, 4, 5, 7, 8, 10],
     [0, 1, 4, 5, 7, 8, 11],
     [0, 1, 3, 6, 7, 10],
     [0, 1, 4, 5, 7, 9, 11],
     [0, 1, 5, 7, 8, 11],
     [0, 1, 3, 5, 7, 8, 10],
     [0, 1, 4, 5, 7, 9, 11],
     [0, 2, 4, 5, 7, 9, 10, 11],
     [0, 2, 3, 5, 7, 9, 10, 11],
     [0, 2, 4, 5, 8, 9, 11],
     [0, 2, 4, 5, 7, 9, 10]]"

definition subharmonic_ratios :: "real list" where
  "subharmonic_ratios = [2, 3, 4, 5]"

text \<open>
  The globals the control loop owns: the quantizer's scale index (a \<^verbatim>\<open>size_t\<close>) and
  root note (an \<^verbatim>\<open>int\<close>), and the user-interface flags of lines 349 to 354.
\<close>

record globals =
  current_scale_idx :: nat
  root_note_midi :: int
  display_mode :: DisplayMode
  menu_state :: MenuState
  menu_active :: bool
  last_encoder_pressed :: bool

text \<open>The initial values of lines 336, 337 and 349 to 354.\<close>

definition initial_globals :: globals where
  "initial_globals =
    \<lparr>current_scale_idx = 0, root_note_midi = 69, display_mode = WAVEFORM,
     menu_state = SCALE_SELECTION, menu_active = False, last_encoder_pressed = False\<rparr>"

section \<open>The pitch quantizer\<close>

text \<open>\<^verbatim>\<open>440.0f * powf(2.0f, (midi_note - 69) / 12.0f)\<close>\<close>

definition MidiToFrequency :: "int \<Rightarrow> real" where
  "MidiToFrequency midi_note = 440 * 2 powr (real_of_int (midi_note - 69) / 12)"

text \<open>
  \<^verbatim>\<open>static_cast<int>\<close> of a \<^verbatim>\<open>float\<close> drops the fraction, towards zero. \<^verbatim>\<open>Quantize\<close>
  applies it to a value between 0 and 127 only.
\<close>

definition static_cast_int :: "real \<Rightarrow> int" where
  "static_cast_int x = (if 0 \<le> x then \<lfloor>x\<rfloor> else \<lceil>x\<rceil>)"

text \<open>The first statement of \<^verbatim>\<open>Quantize\<close>: \<^verbatim>\<open>12.0f * log2f(freq / 440.0f) + 69.0f\<close>.\<close>

definition midi_note_of :: "real \<Rightarrow> real" where
  "midi_note_of freq = 12 * log 2 (freq / 440) + 69"

text \<open>The candidate of one loop iteration, line 371.\<close>

definition candidate_of :: "real \<Rightarrow> real \<Rightarrow> real \<Rightarrow> real" where
  "candidate_of midi_note root_midi note =
     real_of_int \<lfloor>midi_note / 12\<rfloor> * 12 + note + root_midi"

text \<open>
  The loop of lines 369 to 374 over the notes of the active scale; the last argument is
  the running value of \<^verbatim>\<open>closest\<close>.
\<close>

fun Quantize_loop :: "real \<Rightarrow> real \<Rightarrow> real list \<Rightarrow> real \<Rightarrow> real" where
  "Quantize_loop midi_note root_midi [] closest = closest"
| "Quantize_loop midi_note root_midi (note # notes) closest =
     (let candidate = candidate_of midi_note root_midi note
      in Quantize_loop midi_note root_midi notes
           (if \<bar>midi_note - candidate\<bar> < \<bar>midi_note - closest\<bar> then candidate else closest))"

text \<open>
  The value of \<^verbatim>\<open>closest\<close> when the loop ends: it starts at the root note (line 367).
\<close>

definition Quantize_closest :: "globals \<Rightarrow> real \<Rightarrow> real" where
  "Quantize_closest g freq =
     (let midi_note = midi_note_of freq;
          root_midi = real_of_int (root_note_midi g)
      in Quantize_loop midi_note root_midi (scales ! current_scale_idx g) root_midi)"

text \<open>
  \<^verbatim>\<open>Quantize\<close>, lines 363 to 380. It reads the globals \<^verbatim>\<open>current_scale_idx\<close> and
  \<^verbatim>\<open>root_note_midi\<close>; \<^verbatim>\<open>scales[current_scale_idx]\<close> is read in range when the index is
  below \<^term>\<open>kNumScales\<close>.
\<close>

definition Quantize :: "globals \<Rightarrow> real \<Rightarrow> real" where
  "Quantize g freq =
     (let closest = Quantize_closest g freq;
          closest = max 0 (min 127 closest)
      in MidiToFrequency (static_cast_int closest))"

section \<open>The encoder and the menu\<close>

text \<open>
  The encoder driver is outside the repository. One poll of it gives the three signals
  \<^verbatim>\<open>UpdateEncoder\<close> reads: \<^verbatim>\<open>patch.encoder.RisingEdge()\<close>, \<^verbatim>\<open>patch.encoder.Increment()\<close>
  and \<^verbatim>\<open>patch.encoder.Pressed()\<close>. The driver's state does not change inside one call of
  \<^verbatim>\<open>UpdateEncoder\<close>, so the two reads of \<^verbatim>\<open>Pressed()\<close> see the same value.
\<close>

record encoder =
  RisingEdge :: bool
  Increment :: int
  Pressed :: bool

text \<open>
  Conversions between \<^verbatim>\<open>int\<close> and \<^verbatim>\<open>size_t\<close>, both 32 bits wide: an \<^verbatim>\<open>int\<close> operand of
  \<^verbatim>\<open>%\<close> with a \<^verbatim>\<open>size_t\<close> operand is converted to \<^verbatim>\<open>size_t\<close>, modulo \<open>2 ^ 32\<close>, and the
  result is converted back when it is assigned to \<^verbatim>\<open>root_note_midi\<close>.
\<close>

definition to_size_t :: "int \<Rightarrow> nat" where
  "to_size_t i = nat (i mod 2 ^ 32)"

definition size_t_to_int :: "nat \<Rightarrow> int" where
  "size_t_to_int n = (if n < 2 ^ 31 then int n else int n - 2 ^ 32)"

text \<open>Lines 386 to 391: a rising edge toggles the menu; leaving it resets the view.\<close>

definition UpdateEncoder_click :: "encoder \<Rightarrow> globals \<Rightarrow> globals" where
  "UpdateEncoder_click e g =
     (if RisingEdge e then
        (let g' = g\<lparr>menu_active := \<not> menu_active g\<rparr>
         in if \<not> menu_active g' then g'\<lparr>display_mode := WAVEFORM\<rparr> else g')
      else g)"

text \<open>Lines 398 to 419: the increment moves the selection of the active menu page.\<close>

definition UpdateEncoder_select :: "int \<Rightarrow> globals \<Rightarrow> globals" where
  "UpdateEncoder_select encoder_increment g =
     (if encoder_increment > 0 then
        (if menu_state g = SCALE_SELECTION then
           g\<lparr>current_scale_idx := to_size_t (int (current_scale_idx g) + 1) mod kNumScales\<rparr>
         else if menu_state g = ROOT_NOTE_SELECTION then
           g\<lparr>root_note_midi :=
               size_t_to_int (to_size_t (root_note_midi g + 1) mod (kNumNotes * kNumOctaves))\<rparr>
         else g)
      else if encoder_increment < 0 then
        (if menu_state g = SCALE_SELECTION then
           g\<lparr>current_scale_idx :=
               to_size_t (int (current_scale_idx g) + int kNumScales - 1) mod kNumScales\<rparr>
         else if menu_state g = ROOT_NOTE_SELECTION then
           g\<lparr>root_note_midi :=
               size_t_to_int
                 (to_size_t (root_note_midi g + int (kNumNotes * kNumOctaves) - 1)
                    mod (kNumNotes * kNumOctaves))\<rparr>
         else g)
      else g)"

text \<open>Lines 421 to 431: the press toggles the menu page, once per press.\<close>

definition UpdateEncoder_press :: "bool \<Rightarrow> globals \<Rightarrow> globals" where
  "UpdateEncoder_press pressed g =
     (if pressed \<and> \<not> last_encoder_pressed g then
        g\<lparr>menu_state :=
             (if menu_state g = SCALE_SELECTION then ROOT_NOTE_SELECTION else SCALE_SELECTION),
           last_encoder_pressed := True\<rparr>
      else if \<not> pressed then g\<lparr>last_encoder_pressed := False\<rparr>
      else g)"

text \<open>\<^verbatim>\<open>UpdateEncoder\<close>, lines 383 to 441, on one poll of the encoder.\<close>

definition UpdateEncoder :: "encoder \<Rightarrow> globals \<Rightarrow> globals" where
  "UpdateEncoder e g =
     (let g = UpdateEncoder_click e g;
          encoder_increment = Increment e
      in if menu_active g then
           UpdateEncoder_press (Pressed e) (UpdateEncoder_select encoder_increment g)
         else if encoder_increment \<noteq> 0 then
           g\<lparr>display_mode := (if display_mode g = WAVEFORM then XY else WAVEFORM)\<rparr>
         else g)"

text \<open>
  The main loop of lines 546 to 551 calls \<^verbatim>\<open>UpdateEncoder\<close> once per round;
  \<^verbatim>\<open>UpdateDisplay\<close> writes no global. The state after the polls \<open>es\<close>, in order:
\<close>

fun main_loop :: "encoder list \<Rightarrow> globals \<Rightarrow> globals" where
  "main_loop [] g = g"
| "main_loop (e # es) g = main_loop es (UpdateEncoder e g)"

text \<open>The number of rounds of the main loop in which \<^verbatim>\<open>menu_state\<close> changes.\<close>

fun menu_state_flips :: "encoder list \<Rightarrow> globals \<Rightarrow> nat" where
  "menu_state_flips [] g = 0"
| "menu_state_flips (e # es) g =
     (if menu_state (UpdateEncoder e g) \<noteq> menu_state g then 1 else 0)
       + menu_state_flips es (UpdateEncoder e g)"

section \<open>The audio callback\<close>

text \<open>
  The class \<^verbatim>\<open>Oscillator\<close> of the DaisySP library is outside the repository. The model
  takes it as a parameter: a type \<open>'o\<close> of oscillator states with the two methods the
  callback uses, \<^verbatim>\<open>SetFreq\<close> and \<^verbatim>\<open>Process\<close> (which returns the sample and the advanced
  oscillator).
\<close>

record 'o Oscillator =
  SetFreq :: "real \<Rightarrow> 'o \<Rightarrow> 'o"
  Process :: "'o \<Rightarrow> real \<times> 'o"

text \<open>The globals the audio callback owns, lines 340 to 346.\<close>

record 'o audio =
  subharmonics :: "'o list"
  osc_buffer_l :: "real list"
  osc_buffer_r :: "real list"
  buffer_index :: nat

text \<open>
  What the types and initialisers of lines 340 to 346 fix: the sizes of the three arrays.
  The buffers start filled with zeros and the cursor at 0.
\<close>

definition audio_sized :: "'o audio \<Rightarrow> bool" where
  "audio_sized a \<longleftrightarrow>
     length (subharmonics a) = kNumSubharmonics \<and>
     length (osc_buffer_l a) = kWaveformBufferSize \<and>
     length (osc_buffer_r a) = kWaveformBufferSize"

definition initial_audio :: "'o list \<Rightarrow> 'o audio" where
  "initial_audio oscs =
     \<lparr>subharmonics = oscs,
      osc_buffer_l = replicate kWaveformBufferSize 0,
      osc_buffer_r = replicate kWaveformBufferSize 0,
      buffer_index = 0\<rparr>"

text \<open>
  The loop of lines 504 to 513 over the oscillators, from index \<open>j\<close> on; the triple holds
  the oscillators and the running sums \<^verbatim>\<open>mix_l\<close> and \<^verbatim>\<open>mix_r\<close>.
\<close>

function subharmonics_loop ::
  "'o Oscillator \<Rightarrow> real \<Rightarrow> nat \<Rightarrow> 'o list \<times> real \<times> real \<Rightarrow> 'o list \<times> real \<times> real" where
  "subharmonics_loop osc freq j (oscs, mix_l, mix_r) =
     (if j < kNumSubharmonics then
        (let tuned = SetFreq osc (freq / subharmonic_ratios ! j) (oscs ! j);
             sig = fst (Process osc tuned);
             oscs = oscs[j := snd (Process osc tuned)]
         in subharmonics_loop osc freq (j + 1)
              (if j mod 2 = 0 then (oscs, mix_l + sig, mix_r) else (oscs, mix_l, mix_r + sig)))
      else (oscs, mix_l, mix_r))"
  by pat_completeness auto
termination
  by (relation "measure (\<lambda>(osc, freq, j, st). kNumSubharmonics - j)") auto

text \<open>
  Lines 519 to 521: the sample goes into both buffers at the cursor, and the cursor moves
  on. The cursor is below the buffer size whenever the callback runs, so the writes are in
  range.
\<close>

definition write_waveform :: "real \<Rightarrow> real \<Rightarrow> 'o audio \<Rightarrow> 'o audio" where
  "write_waveform mix_l mix_r a =
     a\<lparr>osc_buffer_l := (osc_buffer_l a)[buffer_index a := mix_l],
       osc_buffer_r := (osc_buffer_r a)[buffer_index a := mix_r],
       buffer_index := to_size_t (int (buffer_index a) + 1) mod kWaveformBufferSize\<rparr>"

text \<open>
  One round of the loop of lines 496 to 526, for the control reading \<open>pitch_cv\<close>: the new
  state and the stereo sample written to \<^verbatim>\<open>out[0][i]\<close> and \<^verbatim>\<open>out[1][i]\<close>.
\<close>

definition AudioCallback_frame ::
  "'o Oscillator \<Rightarrow> globals \<Rightarrow> real \<Rightarrow> 'o audio \<Rightarrow> 'o audio \<times> real \<times> real" where
  "AudioCallback_frame osc g pitch_cv a =
     (let freq = Quantize g (20 + pitch_cv * 1980);
          mixed = subharmonics_loop osc freq 0 (subharmonics a, 0, 0);
          mix_l = fst (snd mixed) * 0.5;
          mix_r = snd (snd mixed) * 0.5
      in (write_waveform mix_l mix_r (a\<lparr>subharmonics := fst mixed\<rparr>), mix_l, mix_r))"

text \<open>
  \<^verbatim>\<open>AudioCallback\<close>, lines 494 to 527: one round per frame of the block. The list holds the
  control readings of the frames; the result holds the output samples, frame by frame.
\<close>

fun AudioCallback ::
  "'o Oscillator \<Rightarrow> globals \<Rightarrow> real list \<Rightarrow> 'o audio \<Rightarrow> 'o audio \<times> (real \<times> real) list" where
  "AudioCallback osc g [] a = (a, [])"
| "AudioCallback osc g (pitch_cv # cvs) a =
     (let r = AudioCallback_frame osc g pitch_cv a;
          rest = AudioCallback osc g cvs (fst r)
      in (fst rest, snd r # snd rest))"

section \<open>Properties of the quantizer\<close>

subsection \<open>The search loop\<close>

text \<open>One more note at the end of the scale is one more comparison after the loop.\<close>

lemma Quantize_loop_snoc:
  "Quantize_loop m r (ns @ [n]) c =
     (let l = Quantize_loop m r ns c; candidate = candidate_of m r n
      in if \<bar>m - candidate\<bar> < \<bar>m - l\<bar> then candidate else l)"
  by (induction ns arbitrary: c) (simp_all add: Let_def)

lemma midi_note_of_MidiToFrequency: "midi_note_of (MidiToFrequency k) = real_of_int k"
  by (simp add: midi_note_of_def MidiToFrequency_def log_powr field_simps)

lemma length_scales: "length scales = kNumScales"
  by (simp add: scales_def kNumScales_def)

lemma scales_Ints_all: "\<forall>ns\<in>set scales. \<forall>n\<in>set ns. n \<in> \<int>"
  by (simp add: scales_def)

lemma scales_Ints: "s < kNumScales \<Longrightarrow> n \<in> set (scales ! s) \<Longrightarrow> n \<in> \<int>"
proof -
  assume "s < kNumScales" and n: "n \<in> set (scales ! s)"
  then have "scales ! s \<in> set scales"
    by (simp add: length_scales)
  with n show ?thesis
    using scales_Ints_all by blast
qed

lemma Quantize_loop_split:
  "\<exists>pre post. c # map (candidate_of m r) ns = pre @ Quantize_loop m r ns c # post
     \<and> (\<forall>x\<in>set pre. \<bar>m - Quantize_loop m r ns c\<bar> < \<bar>m - x\<bar>)
     \<and> (\<forall>x\<in>set post. \<bar>m - Quantize_loop m r ns c\<bar> \<le> \<bar>m - x\<bar>)"
proof (induction ns rule: rev_induct)
  case Nil
  have "[c] = [] @ c # []" by simp
  then show ?case by force
next
  case (snoc n ns)
  let ?l = "Quantize_loop m r ns c"
  let ?k = "candidate_of m r n"
  from snoc obtain pre post where
    eq: "c # map (candidate_of m r) ns = pre @ ?l # post"
    and pre: "\<forall>x\<in>set pre. \<bar>m - ?l\<bar> < \<bar>m - x\<bar>"
    and post: "\<forall>x\<in>set post. \<bar>m - ?l\<bar> \<le> \<bar>m - x\<bar>"
    by blast
  show ?case
  proof (cases "\<bar>m - ?k\<bar> < \<bar>m - ?l\<bar>")
    case True
    then have res: "Quantize_loop m r (ns @ [n]) c = ?k"
      by (simp add: Quantize_loop_snoc)
    have a: "c # map (candidate_of m r) (ns @ [n]) = (pre @ ?l # post) @ ?k # []"
      using eq by simp
    have b: "\<forall>x\<in>set (pre @ ?l # post). \<bar>m - ?k\<bar> < \<bar>m - x\<bar>"
      using True pre post by fastforce
    have c: "\<forall>x\<in>set ([]::real list). \<bar>m - ?k\<bar> \<le> \<bar>m - x\<bar>"
      by simp
    show ?thesis
      unfolding res using a b c by blast
  next
    case False
    then have res: "Quantize_loop m r (ns @ [n]) c = ?l"
      by (simp add: Quantize_loop_snoc)
    have a: "c # map (candidate_of m r) (ns @ [n]) = pre @ ?l # (post @ [?k])"
      using eq by simp
    have b: "\<forall>x\<in>set (post @ [?k]). \<bar>m - ?l\<bar> \<le> \<bar>m - x\<bar>"
      using False post by auto
    show ?thesis
      unfolding res using a pre b by blast
  qed
qed

lemma MidiToFrequency_eq_iff: "MidiToFrequency j = MidiToFrequency k \<longleftrightarrow> j = k"
proof
  assume "MidiToFrequency j = MidiToFrequency k"
  then have "midi_note_of (MidiToFrequency j) = midi_note_of (MidiToFrequency k)"
    by simp
  then show "j = k"
    by (simp add: midi_note_of_MidiToFrequency)
qed simp

lemma MidiToFrequency_69: "MidiToFrequency 69 = 440"
  by (simp add: MidiToFrequency_def)

lemma MidiToFrequency_mono: "j \<le> k \<Longrightarrow> MidiToFrequency j \<le> MidiToFrequency k"
  by (simp add: MidiToFrequency_def divide_right_mono)

lemma static_cast_int_clamp:
  "0 \<le> static_cast_int (max 0 (min 127 x)) \<and> static_cast_int (max 0 (min 127 x)) \<le> 127"
proof -
  have "0 \<le> max 0 (min 127 x)" "max 0 (min 127 x) \<le> 127"
    by simp_all
  then show ?thesis
    unfolding static_cast_int_def by (simp add: floor_le_iff le_floor_iff)
qed

lemma Quantize_loop_closest:
  "\<bar>m - Quantize_loop m r ns c\<bar> \<le> \<bar>m - c\<bar>"
proof -
  obtain pre post where
    eq: "c # map (candidate_of m r) ns = pre @ Quantize_loop m r ns c # post"
    and pre: "\<forall>x\<in>set pre. \<bar>m - Quantize_loop m r ns c\<bar> < \<bar>m - x\<bar>"
    and post: "\<forall>x\<in>set post. \<bar>m - Quantize_loop m r ns c\<bar> \<le> \<bar>m - x\<bar>"
    using Quantize_loop_split [of c m r ns] by blast
  have "c \<in> set (pre @ Quantize_loop m r ns c # post)"
    using eq by (metis list.set_intros(1))
  then show ?thesis
    using pre post by fastforce
qed

lemma Quantize_loop_mem:
  "Quantize_loop m r ns c = c \<or> Quantize_loop m r ns c \<in> candidate_of m r ` set ns"
proof -
  obtain pre post where
    eq: "c # map (candidate_of m r) ns = pre @ Quantize_loop m r ns c # post"
    using Quantize_loop_split [of c m r ns] by blast
  have "Quantize_loop m r ns c \<in> set (c # map (candidate_of m r) ns)"
    unfolding eq by simp
  then show ?thesis by auto
qed

lemma Quantize_loop_exact:
  assumes "m = c \<or> m \<in> candidate_of m r ` set ns"
  shows "Quantize_loop m r ns c = m"
proof -
  obtain pre post where
    eq: "c # map (candidate_of m r) ns = pre @ Quantize_loop m r ns c # post"
    and pre: "\<forall>x\<in>set pre. \<bar>m - Quantize_loop m r ns c\<bar> < \<bar>m - x\<bar>"
    and post: "\<forall>x\<in>set post. \<bar>m - Quantize_loop m r ns c\<bar> \<le> \<bar>m - x\<bar>"
    using Quantize_loop_split [of c m r ns] by blast
  have "m \<in> set (c # map (candidate_of m r) ns)"
    using assms by auto
  then have "m \<in> set (pre @ Quantize_loop m r ns c # post)"
    using eq by simp
  then have "\<bar>m - Quantize_loop m r ns c\<bar> \<le> \<bar>m - m\<bar>"
    using pre post by fastforce
  then show ?thesis by simp
qed

subsection \<open>The quantizer at concrete inputs\<close>

lemma scales_0: "scales ! 0 = [0, 2, 4, 5, 7, 9, 11]"
  by (simp add: scales_def)

lemma midi_note_of_440: "midi_note_of 440 = 69"
  by (simp add: midi_note_of_def)

lemma candidate_of_69: "candidate_of 69 r n = 60 + n + r"
  by (simp add: candidate_of_def)

lemma candidate_of_73: "candidate_of 73 r n = 72 + n + r"
  by (simp add: candidate_of_def)

lemma static_cast_int_of_int: "static_cast_int (real_of_int k) = k"
  by (simp add: static_cast_int_def)

lemma MidiToFrequency_octave: "MidiToFrequency (k + 12) = 2 * MidiToFrequency k"
proof -
  have e: "real_of_int (k + 12 - 69) / 12 = real_of_int (k - 69) / 12 + 1"
    by (simp add: field_simps)
  show ?thesis
    unfolding MidiToFrequency_def e by (simp add: powr_add)
qed

lemma MidiToFrequency_pos: "0 < MidiToFrequency k"
  by (simp add: MidiToFrequency_def)

lemma Quantize_closest_default: "Quantize_closest initial_globals 440 = 69"
proof -
  have "current_scale_idx initial_globals = 0" "root_note_midi initial_globals = 69"
    by (simp_all add: initial_globals_def)
  then have "Quantize_closest initial_globals 440 = Quantize_loop 69 69 [0, 2, 4, 5, 7, 9, 11] 69"
    unfolding Quantize_closest_def Let_def by (simp add: midi_note_of_440 scales_0)
  also have "\<dots> = 69"
    by (simp add: candidate_of_69)
  finally show ?thesis .
qed

lemma Quantize_default: "Quantize initial_globals 440 = 440"
  unfolding Quantize_def Quantize_closest_default Let_def
  by (simp add: static_cast_int_def MidiToFrequency_69)

lemma candidates_default:
  "map (candidate_of (midi_note_of 440) 69) (scales ! current_scale_idx initial_globals) =
     [129, 131, 133, 134, 136, 138, 140]"
proof -
  have "current_scale_idx initial_globals = 0"
    by (simp add: initial_globals_def)
  then show ?thesis
    by (simp add: midi_note_of_440 scales_0 candidate_of_69)
qed

subsection \<open>Claim C1: which pitch the quantizer selects\<close>

text \<open>
  Claim C1 says that the pitch \<^verbatim>\<open>Quantize\<close> returns is always one of the candidates
  \<open>floor(pitch/12)*12 + o + r\<close>, the one nearest to the input pitch. The loop starts from
  the root note itself (line 367) and only moves to a candidate that is strictly nearer.
  With the initial globals (scale 0, root note 69) and 440 Hz the input pitch is 69, the
  candidates are 129 to 140, the root note is nearer than all of them, and the result is
  the frequency of pitch 69: not the frequency of any candidate, clamped or not.
\<close>

theorem Quantize_candidate_counterexample:
  "Quantize_closest initial_globals 440 = 69 \<and>
   Quantize initial_globals 440 = MidiToFrequency 69 \<and>
   map (candidate_of (midi_note_of 440) (real_of_int (root_note_midi initial_globals)))
     (scales ! current_scale_idx initial_globals) = [129, 131, 133, 134, 136, 138, 140] \<and>
   Quantize initial_globals 440 \<notin>
     set (map MidiToFrequency [129, 131, 133, 134, 136, 138, 140, 127])"
proof -
  have r: "real_of_int (root_note_midi initial_globals) = 69"
    by (simp add: initial_globals_def)
  have "Quantize initial_globals 440 = MidiToFrequency 69"
    by (simp add: Quantize_default MidiToFrequency_69)
  moreover have "MidiToFrequency 69 \<notin> set (map MidiToFrequency [129, 131, 133, 134, 136, 138, 140, 127])"
    by (simp add: MidiToFrequency_eq_iff)
  ultimately show ?thesis
    using Quantize_closest_default candidates_default r by simp
qed

text \<open>
  Claim C1 as amended: for a frequency \<open>f > 0\<close>, a valid scale index and a root note \<open>r\<close>
  in \<open>[0, 108)\<close>, the pitch is \<open>12 * log2(f / 440) + 69\<close> and the selected pitch
  \<^term>\<open>Quantize_closest g f\<close> is an element of the list that starts with the root note and
  goes on with the candidates \<open>floor(pitch/12)*12 + o + r\<close> in scale order. Every earlier
  element of that list is strictly farther from the pitch and every later element is at
  least as far: the selected pitch is nearest to the input pitch among the root note and
  the candidates, and ties go to the root note first, then to the first candidate in scale
  order. \<^verbatim>\<open>Quantize\<close> returns the frequency of the selected pitch clamped to \<open>[0, 127]\<close>.
\<close>

theorem Quantize_nearest_of_root_and_candidates:
  assumes "0 < freq" and "current_scale_idx g < kNumScales"
    and "0 \<le> root_note_midi g" and "root_note_midi g < 108"
  shows "midi_note_of freq = 12 * log 2 (freq / 440) + 69 \<and>
    (\<exists>pre post.
       real_of_int (root_note_midi g) #
         map (\<lambda>n. real_of_int \<lfloor>midi_note_of freq / 12\<rfloor> * 12 + n + real_of_int (root_note_midi g))
           (scales ! current_scale_idx g)
         = pre @ Quantize_closest g freq # post \<and>
       (\<forall>x\<in>set pre. \<bar>midi_note_of freq - Quantize_closest g freq\<bar> < \<bar>midi_note_of freq - x\<bar>) \<and>
       (\<forall>x\<in>set post. \<bar>midi_note_of freq - Quantize_closest g freq\<bar> \<le> \<bar>midi_note_of freq - x\<bar>)) \<and>
    Quantize g freq = MidiToFrequency (static_cast_int (max 0 (min 127 (Quantize_closest g freq))))"
proof -
  have "candidate_of (midi_note_of freq) (real_of_int (root_note_midi g)) =
      (\<lambda>n. real_of_int \<lfloor>midi_note_of freq / 12\<rfloor> * 12 + n + real_of_int (root_note_midi g))"
    by (rule ext) (simp add: candidate_of_def)
  then have "\<exists>pre post.
       real_of_int (root_note_midi g) #
         map (\<lambda>n. real_of_int \<lfloor>midi_note_of freq / 12\<rfloor> * 12 + n + real_of_int (root_note_midi g))
           (scales ! current_scale_idx g)
         = pre @ Quantize_closest g freq # post \<and>
       (\<forall>x\<in>set pre. \<bar>midi_note_of freq - Quantize_closest g freq\<bar> < \<bar>midi_note_of freq - x\<bar>) \<and>
       (\<forall>x\<in>set post. \<bar>midi_note_of freq - Quantize_closest g freq\<bar> \<le> \<bar>midi_note_of freq - x\<bar>)"
    using Quantize_loop_split [of "real_of_int (root_note_midi g)" "midi_note_of freq"
        "real_of_int (root_note_midi g)" "scales ! current_scale_idx g"]
    unfolding Quantize_closest_def Let_def by simp
  moreover have "Quantize g freq =
      MidiToFrequency (static_cast_int (max 0 (min 127 (Quantize_closest g freq))))"
    unfolding Quantize_def Let_def ..
  ultimately show ?thesis
    by (simp add: midi_note_of_def)
qed

theorem Quantize_nearest_of_root_and_candidates_witness:
  "(0::real) < 440 \<and> current_scale_idx initial_globals < kNumScales \<and>
   0 \<le> root_note_midi initial_globals \<and> root_note_midi initial_globals < 108 \<and>
   midi_note_of 440 = 12 * log 2 (440 / 440) + 69 \<and>
   (\<exists>pre post.
       real_of_int (root_note_midi initial_globals) #
         map (\<lambda>n. real_of_int \<lfloor>midi_note_of 440 / 12\<rfloor> * 12 + n
               + real_of_int (root_note_midi initial_globals))
           (scales ! current_scale_idx initial_globals)
         = pre @ Quantize_closest initial_globals 440 # post \<and>
       (\<forall>x\<in>set pre. \<bar>midi_note_of 440 - Quantize_closest initial_globals 440\<bar>
           < \<bar>midi_note_of 440 - x\<bar>) \<and>
       (\<forall>x\<in>set post. \<bar>midi_note_of 440 - Quantize_closest initial_globals 440\<bar>
           \<le> \<bar>midi_note_of 440 - x\<bar>)) \<and>
   Quantize initial_globals 440 =
     MidiToFrequency (static_cast_int (max 0 (min 127 (Quantize_closest initial_globals 440))))"
proof -
  have h: "(0::real) < 440" "current_scale_idx initial_globals < kNumScales"
    "0 \<le> root_note_midi initial_globals" "root_note_midi initial_globals < 108"
    by (simp_all add: initial_globals_def kNumScales_def)
  show ?thesis
    using h Quantize_nearest_of_root_and_candidates [OF h] by blast
qed

subsection \<open>Claim C2: the clamp\<close>

text \<open>
  Claim C2: \<^verbatim>\<open>Quantize\<close> clamps the selected pitch to \<open>[0, 127]\<close> before it converts it
  back; for every frequency \<open>f > 0\<close> the result is \<open>440 * 2 ^ ((p - 69) / 12)\<close> for an
  integer pitch \<open>p\<close> with \<open>0 \<le> p \<le> 127\<close>, so that it lies between the frequencies of pitch
  0 and of pitch 127 whatever the input, the scale index and the root note are.
\<close>

theorem Quantize_clamped:
  assumes "0 < freq"
  shows "\<exists>p. 0 \<le> p \<and> p \<le> 127 \<and>
    p = static_cast_int (max 0 (min 127 (Quantize_closest g freq))) \<and>
    Quantize g freq = 440 * 2 powr ((real_of_int p - 69) / 12) \<and>
    440 * 2 powr (- 69 / 12) \<le> Quantize g freq \<and> Quantize g freq \<le> 440 * 2 powr (58 / 12)"
proof -
  let ?p = "static_cast_int (max 0 (min 127 (Quantize_closest g freq)))"
  have b: "0 \<le> ?p" "?p \<le> 127"
    using static_cast_int_clamp [of "Quantize_closest g freq"] by simp_all
  have q: "Quantize g freq = MidiToFrequency ?p"
    unfolding Quantize_def Let_def ..
  have "MidiToFrequency 0 \<le> MidiToFrequency ?p" "MidiToFrequency ?p \<le> MidiToFrequency 127"
    using b by (simp_all add: MidiToFrequency_mono)
  then have "440 * 2 powr (- 69 / 12) \<le> Quantize g freq" "Quantize g freq \<le> 440 * 2 powr (58 / 12)"
    unfolding q by (simp_all add: MidiToFrequency_def)
  moreover have "Quantize g freq = 440 * 2 powr ((real_of_int ?p - 69) / 12)"
    unfolding q by (simp add: MidiToFrequency_def)
  ultimately show ?thesis
    using b by blast
qed

theorem Quantize_clamped_witness:
  "(0::real) < 440 \<and>
   (\<exists>p. 0 \<le> p \<and> p \<le> 127 \<and>
      p = static_cast_int (max 0 (min 127 (Quantize_closest initial_globals 440))) \<and>
      Quantize initial_globals 440 = 440 * 2 powr ((real_of_int p - 69) / 12) \<and>
      440 * 2 powr (- 69 / 12) \<le> Quantize initial_globals 440 \<and>
      Quantize initial_globals 440 \<le> 440 * 2 powr (58 / 12))"
proof -
  have h: "(0::real) < 440" by simp
  show ?thesis
    using h Quantize_clamped [OF h, of initial_globals] by blast
qed

subsection \<open>Claim C4: quantizing twice\<close>

lemma candidate_of_Ints: "n \<in> \<int> \<Longrightarrow> candidate_of m (real_of_int r) n \<in> \<int>"
  by (simp add: candidate_of_def)

lemma Quantize_closest_Ints:
  assumes "current_scale_idx g < kNumScales"
  shows "Quantize_closest g freq \<in> \<int>"
proof -
  let ?m = "midi_note_of freq" and ?r = "real_of_int (root_note_midi g)"
  let ?ns = "scales ! current_scale_idx g"
  have "Quantize_loop ?m ?r ?ns ?r = ?r \<or> Quantize_loop ?m ?r ?ns ?r \<in> candidate_of ?m ?r ` set ?ns"
    by (rule Quantize_loop_mem)
  moreover have "\<forall>n\<in>set ?ns. candidate_of ?m ?r n \<in> \<int>"
    using assms scales_Ints candidate_of_Ints by blast
  ultimately show ?thesis
    unfolding Quantize_closest_def Let_def by auto
qed

lemma Quantize_of_pitch:
  assumes "Quantize_closest g freq = real_of_int k" and "0 \<le> k" and "k \<le> 127"
  shows "Quantize g freq = MidiToFrequency k"
proof -
  have "max 0 (min 127 (real_of_int k)) = real_of_int k"
    using assms(2,3) by simp
  then show ?thesis
    unfolding Quantize_def Let_def assms(1) by (simp add: static_cast_int_of_int)
qed

lemma candidate_of_same_octave:
  "\<lfloor>c / 12\<rfloor> = \<lfloor>m / 12\<rfloor> \<Longrightarrow> candidate_of c r n = candidate_of m r n"
  by (simp add: candidate_of_def)

lemma Quantize_loop_Cons:
  "Quantize_loop m r (n # ns) c =
     Quantize_loop m r ns (if \<bar>m - candidate_of m r n\<bar> < \<bar>m - c\<bar> then candidate_of m r n else c)"
  by (simp add: Let_def)

lemmas Quantize_loop_eval = Quantize_loop.simps(1) Quantize_loop_Cons

lemma Quantize_closest_eval:
  "current_scale_idx g = s \<Longrightarrow> root_note_midi g = r \<Longrightarrow> midi_note_of f = m \<Longrightarrow> scales ! s = ns
   \<Longrightarrow> Quantize_closest g f = Quantize_loop m (real_of_int r) ns (real_of_int r)"
  unfolding Quantize_closest_def Let_def by (elim ssubst) (rule refl)

lemma Quantize_closest_root_13:
  "Quantize_closest (initial_globals\<lparr>root_note_midi := 13\<rparr>) 440 = 73"
proof -
  have "Quantize_closest (initial_globals\<lparr>root_note_midi := 13\<rparr>) 440 =
      Quantize_loop 69 (real_of_int 13) [0, 2, 4, 5, 7, 9, 11] (real_of_int 13)"
    by (rule Quantize_closest_eval [OF _ _ midi_note_of_440 scales_0]) (simp_all add: initial_globals_def)
  also have "\<dots> = 73"
    by (simp del: Quantize_loop.simps add: Quantize_loop_eval candidate_of_69)
  finally show ?thesis .
qed

lemma midi_note_of_73: "midi_note_of (MidiToFrequency 73) = 73"
  using midi_note_of_MidiToFrequency [of 73] by simp

lemma Quantize_closest_root_13_again:
  "Quantize_closest (initial_globals\<lparr>root_note_midi := 13\<rparr>) (MidiToFrequency 73) = 85"
proof -
  have "Quantize_closest (initial_globals\<lparr>root_note_midi := 13\<rparr>) (MidiToFrequency 73) =
      Quantize_loop 73 (real_of_int 13) [0, 2, 4, 5, 7, 9, 11] (real_of_int 13)"
    by (rule Quantize_closest_eval [OF _ _ midi_note_of_73 scales_0]) (simp_all add: initial_globals_def)
  also have "\<dots> = 85"
    by (simp del: Quantize_loop.simps add: Quantize_loop_eval candidate_of_73)
  finally show ?thesis .
qed

lemma Quantize_closest_root_0:
  "Quantize_closest (initial_globals\<lparr>root_note_midi := 0\<rparr>) 440 = 69"
proof -
  have "Quantize_closest (initial_globals\<lparr>root_note_midi := 0\<rparr>) 440 =
      Quantize_loop 69 (real_of_int 0) [0, 2, 4, 5, 7, 9, 11] (real_of_int 0)"
    by (rule Quantize_closest_eval [OF _ _ midi_note_of_440 scales_0]) (simp_all add: initial_globals_def)
  also have "\<dots> = 69"
    by (simp del: Quantize_loop.simps add: Quantize_loop_eval candidate_of_69)
  finally show ?thesis .
qed

text \<open>
  Claim C4 says that \<^verbatim>\<open>Quantize\<close> is idempotent in the frequency. The candidates are built
  from the 12-semitone block of the input pitch plus the whole root note, so the selected
  pitch can lie in a later block than the input pitch, and the second application then
  searches other candidates. With scale 0, root note 13 and 440 Hz the input pitch is 69,
  the selected pitch is \<open>60 + 0 + 13 = 73\<close>; from pitch 73 the selected pitch is
  \<open>72 + 0 + 13 = 85\<close>: the second result is twice the first, an octave higher.
\<close>

theorem Quantize_idempotent_counterexample:
  "Quantize (initial_globals\<lparr>root_note_midi := 13\<rparr>) 440 = MidiToFrequency 73 \<and>
   Quantize (initial_globals\<lparr>root_note_midi := 13\<rparr>)
     (Quantize (initial_globals\<lparr>root_note_midi := 13\<rparr>) 440) = MidiToFrequency 85 \<and>
   Quantize (initial_globals\<lparr>root_note_midi := 13\<rparr>)
     (Quantize (initial_globals\<lparr>root_note_midi := 13\<rparr>) 440)
     = 2 * Quantize (initial_globals\<lparr>root_note_midi := 13\<rparr>) 440 \<and>
   Quantize (initial_globals\<lparr>root_note_midi := 13\<rparr>)
     (Quantize (initial_globals\<lparr>root_note_midi := 13\<rparr>) 440)
     \<noteq> Quantize (initial_globals\<lparr>root_note_midi := 13\<rparr>) 440"
proof -
  let ?g = "initial_globals\<lparr>root_note_midi := 13\<rparr>"
  have a: "Quantize ?g 440 = MidiToFrequency 73"
    using Quantize_closest_root_13 by (intro Quantize_of_pitch) simp_all
  have b: "Quantize ?g (MidiToFrequency 73) = MidiToFrequency 85"
    using Quantize_closest_root_13_again by (intro Quantize_of_pitch) simp_all
  have c: "MidiToFrequency 85 = 2 * MidiToFrequency 73"
    using MidiToFrequency_octave [of 73] by simp
  have d: "MidiToFrequency 85 \<noteq> MidiToFrequency 73"
    by (simp add: MidiToFrequency_eq_iff)
  show ?thesis
    unfolding a b using c d by simp
qed

text \<open>
  Claim C4 as amended: for a frequency \<open>f > 0\<close>, a valid scale index and a root note in
  \<open>[0, 108)\<close>, quantizing the quantized frequency gives the quantized frequency again
  whenever the pitch selected for \<open>f\<close> is the root note itself, or lies in \<open>[0, 127]\<close> and
  in the same 12-semitone block as the input pitch (the floors of both pitches divided by 12
  agree). Then the second search has the candidates of the first, and the nearest of them to
  the quantized pitch is that pitch.
\<close>

theorem Quantize_idempotent_same_octave:
  assumes "0 < freq" and "current_scale_idx g < kNumScales"
    and "0 \<le> root_note_midi g" and "root_note_midi g < 108"
    and "Quantize_closest g freq = real_of_int (root_note_midi g) \<or>
         (0 \<le> Quantize_closest g freq \<and> Quantize_closest g freq \<le> 127 \<and>
          \<lfloor>Quantize_closest g freq / 12\<rfloor> = \<lfloor>midi_note_of freq / 12\<rfloor>)"
  shows "Quantize g (Quantize g freq) = Quantize g freq"
proof -
  let ?m = "midi_note_of freq" and ?r = "real_of_int (root_note_midi g)"
  let ?ns = "scales ! current_scale_idx g"
  obtain k where k: "Quantize_closest g freq = real_of_int k"
    using Quantize_closest_Ints [OF assms(2)] by (auto elim: Ints_cases)
  have range: "0 \<le> k \<and> k \<le> 127"
    using assms(3,4,5) k by auto
  then have first: "Quantize g freq = MidiToFrequency k"
    using k by (simp add: Quantize_of_pitch)
  have loop: "Quantize_loop ?m ?r ?ns ?r = real_of_int k"
    using k unfolding Quantize_closest_def Let_def .
  have "real_of_int k = ?r \<or> real_of_int k \<in> candidate_of (real_of_int k) ?r ` set ?ns"
  proof (cases "real_of_int k = ?r")
    case True
    then show ?thesis by simp
  next
    case False
    then have "\<lfloor>real_of_int k / 12\<rfloor> = \<lfloor>?m / 12\<rfloor>"
      using assms(5) k by simp
    then have "candidate_of (real_of_int k) ?r = candidate_of ?m ?r"
      by (intro ext candidate_of_same_octave)
    moreover have "real_of_int k \<in> candidate_of ?m ?r ` set ?ns"
      using Quantize_loop_mem [of ?m ?r ?ns ?r] False loop by simp
    ultimately show ?thesis by simp
  qed
  then have "Quantize_loop (real_of_int k) ?r ?ns ?r = real_of_int k"
    by (rule Quantize_loop_exact)
  then have "Quantize_closest g (MidiToFrequency k) = real_of_int k"
    unfolding Quantize_closest_def Let_def midi_note_of_MidiToFrequency .
  then have "Quantize g (MidiToFrequency k) = MidiToFrequency k"
    using range by (simp add: Quantize_of_pitch)
  then show ?thesis
    unfolding first .
qed

theorem Quantize_idempotent_same_octave_witness:
  "Quantize_closest (initial_globals\<lparr>root_note_midi := 0\<rparr>) 440 = 69 \<and>
   \<lfloor>Quantize_closest (initial_globals\<lparr>root_note_midi := 0\<rparr>) 440 / 12\<rfloor> = \<lfloor>midi_note_of 440 / 12\<rfloor> \<and>
   Quantize (initial_globals\<lparr>root_note_midi := 0\<rparr>)
     (Quantize (initial_globals\<lparr>root_note_midi := 0\<rparr>) 440)
     = Quantize (initial_globals\<lparr>root_note_midi := 0\<rparr>) 440"
proof -
  let ?g = "initial_globals\<lparr>root_note_midi := 0\<rparr>"
  have h: "(0::real) < 440" "current_scale_idx ?g < kNumScales"
    "0 \<le> root_note_midi ?g" "root_note_midi ?g < 108"
    by (simp_all add: initial_globals_def kNumScales_def)
  have o: "\<lfloor>Quantize_closest ?g 440 / 12\<rfloor> = \<lfloor>midi_note_of 440 / 12\<rfloor>"
    unfolding Quantize_closest_root_0 midi_note_of_440 ..
  have h5: "Quantize_closest ?g 440 = real_of_int (root_note_midi ?g) \<or>
         (0 \<le> Quantize_closest ?g 440 \<and> Quantize_closest ?g 440 \<le> 127 \<and>
          \<lfloor>Quantize_closest ?g 440 / 12\<rfloor> = \<lfloor>midi_note_of 440 / 12\<rfloor>)"
    using o by (simp add: Quantize_closest_root_0)
  show ?thesis
    using Quantize_idempotent_same_octave [OF h h5] o Quantize_closest_root_0 by simp
qed

section \<open>Properties of the encoder handling\<close>

subsection \<open>What each block of \<^verbatim>\<open>UpdateEncoder\<close> changes\<close>

lemma to_size_t_small: "0 \<le> i \<Longrightarrow> i < 2 ^ 32 \<Longrightarrow> to_size_t i = nat i"
  by (simp add: to_size_t_def)

lemma size_t_to_int_small: "n < 2 ^ 31 \<Longrightarrow> size_t_to_int n = int n"
  by (simp add: size_t_to_int_def)

lemma click_frame:
  "menu_state (UpdateEncoder_click e g) = menu_state g"
  "current_scale_idx (UpdateEncoder_click e g) = current_scale_idx g"
  "root_note_midi (UpdateEncoder_click e g) = root_note_midi g"
  "last_encoder_pressed (UpdateEncoder_click e g) = last_encoder_pressed g"
  by (simp_all add: UpdateEncoder_click_def Let_def)

lemma click_menu_active:
  "menu_active (UpdateEncoder_click e g) = (if RisingEdge e then \<not> menu_active g else menu_active g)"
  by (simp add: UpdateEncoder_click_def Let_def)

lemma click_display_mode:
  "display_mode (UpdateEncoder_click e g) =
     (if RisingEdge e \<and> menu_active g then WAVEFORM else display_mode g)"
  by (simp add: UpdateEncoder_click_def Let_def)

lemma select_frame:
  "menu_state (UpdateEncoder_select i g) = menu_state g"
  "menu_active (UpdateEncoder_select i g) = menu_active g"
  "display_mode (UpdateEncoder_select i g) = display_mode g"
  "last_encoder_pressed (UpdateEncoder_select i g) = last_encoder_pressed g"
  by (simp_all add: UpdateEncoder_select_def)

lemma select_zero: "UpdateEncoder_select 0 g = g"
  by (simp add: UpdateEncoder_select_def)

lemma press_frame:
  "current_scale_idx (UpdateEncoder_press p g) = current_scale_idx g"
  "root_note_midi (UpdateEncoder_press p g) = root_note_midi g"
  "menu_active (UpdateEncoder_press p g) = menu_active g"
  "display_mode (UpdateEncoder_press p g) = display_mode g"
  by (simp_all add: UpdateEncoder_press_def)

lemma press_menu_state:
  "menu_state (UpdateEncoder_press p g) =
     (if p \<and> \<not> last_encoder_pressed g
      then (if menu_state g = SCALE_SELECTION then ROOT_NOTE_SELECTION else SCALE_SELECTION)
      else menu_state g)"
  by (simp add: UpdateEncoder_press_def)

lemma press_last: "last_encoder_pressed (UpdateEncoder_press p g) = p"
  by (simp add: UpdateEncoder_press_def)

lemma UpdateEncoder_menu_active:
  "menu_active (UpdateEncoder e g) = (if RisingEdge e then \<not> menu_active g else menu_active g)"
  by (simp add: UpdateEncoder_def Let_def press_frame select_frame click_menu_active)

lemma UpdateEncoder_active:
  "menu_active (UpdateEncoder e g) \<Longrightarrow>
   UpdateEncoder e g =
     UpdateEncoder_press (Pressed e) (UpdateEncoder_select (Increment e) (UpdateEncoder_click e g))"
  by (simp add: UpdateEncoder_def Let_def press_frame select_frame click_menu_active
      split: if_splits)

lemma UpdateEncoder_inactive:
  "\<not> menu_active (UpdateEncoder e g) \<Longrightarrow>
   UpdateEncoder e g =
     (if Increment e \<noteq> 0
      then (UpdateEncoder_click e g)\<lparr>display_mode :=
              (if display_mode (UpdateEncoder_click e g) = WAVEFORM then XY else WAVEFORM)\<rparr>
      else UpdateEncoder_click e g)"
  by (simp add: UpdateEncoder_def Let_def press_frame select_frame click_menu_active
      split: if_splits)

lemma select_scale_idx:
  assumes "current_scale_idx g < kNumScales"
  shows "current_scale_idx (UpdateEncoder_select i g) =
     (if menu_state g = SCALE_SELECTION \<and> 0 < i then (current_scale_idx g + 1) mod kNumScales
      else if menu_state g = SCALE_SELECTION \<and> i < 0
        then (current_scale_idx g + kNumScales - 1) mod kNumScales
      else current_scale_idx g)"
proof -
  have "to_size_t (int (current_scale_idx g) + 1) = current_scale_idx g + 1"
    using assms by (subst to_size_t_small) (simp_all add: kNumScales_def)
  moreover have "to_size_t (int (current_scale_idx g) + int kNumScales - 1)
      = current_scale_idx g + kNumScales - 1"
    using assms by (subst to_size_t_small) (simp_all add: kNumScales_def)
  ultimately show ?thesis
    by (cases "menu_state g") (simp_all add: UpdateEncoder_select_def)
qed

lemma size_t_to_int_mod_108: "size_t_to_int (n mod 108) = int n mod 108"
proof -
  have "n mod 108 < 108" by simp
  then have "n mod 108 < 2 ^ 31" by simp
  then show ?thesis
    by (simp add: size_t_to_int_small zmod_int)
qed

lemma mod_108_pred: "(r + 107) mod 108 = (r - 1) mod (108::int)"
proof -
  have "r + 107 = (r - 1) + 108" by simp
  then show ?thesis
    by (simp only: mod_add_self2)
qed

lemma select_root_note:
  assumes "0 \<le> root_note_midi g" and "root_note_midi g < 108"
  shows "root_note_midi (UpdateEncoder_select i g) =
     (if menu_state g = ROOT_NOTE_SELECTION \<and> 0 < i then (root_note_midi g + 1) mod 108
      else if menu_state g = ROOT_NOTE_SELECTION \<and> i < 0 then (root_note_midi g - 1) mod 108
      else root_note_midi g)"
proof -
  have up: "to_size_t (root_note_midi g + 1) = nat (root_note_midi g + 1)"
    using assms by (subst to_size_t_small) simp_all
  have down: "to_size_t (root_note_midi g + int (kNumNotes * kNumOctaves) - 1)
      = nat (root_note_midi g + 107)"
    using assms by (subst to_size_t_small) (simp_all add: kNumNotes_def kNumOctaves_def)
  have k: "kNumNotes * kNumOctaves = 108"
    by (simp add: kNumNotes_def kNumOctaves_def)
  have a: "size_t_to_int (to_size_t (root_note_midi g + 1) mod (kNumNotes * kNumOctaves))
      = (root_note_midi g + 1) mod 108"
    unfolding up k size_t_to_int_mod_108 using assms by simp
  have b: "size_t_to_int (to_size_t (root_note_midi g + int (kNumNotes * kNumOctaves) - 1)
        mod (kNumNotes * kNumOctaves)) = (root_note_midi g - 1) mod 108"
    unfolding down unfolding k size_t_to_int_mod_108 using assms by (simp add: mod_108_pred)
  show ?thesis
    unfolding UpdateEncoder_select_def a b by (cases "menu_state g") simp_all
qed

subsection \<open>One round of the main loop, field by field\<close>

lemma UpdateEncoder_scale_idx:
  assumes "current_scale_idx g < kNumScales"
  shows "current_scale_idx (UpdateEncoder e g) =
     (if menu_active (UpdateEncoder e g) \<and> menu_state g = SCALE_SELECTION \<and> 0 < Increment e
        then (current_scale_idx g + 1) mod kNumScales
      else if menu_active (UpdateEncoder e g) \<and> menu_state g = SCALE_SELECTION \<and> Increment e < 0
        then (current_scale_idx g + kNumScales - 1) mod kNumScales
      else current_scale_idx g)"
proof (cases "menu_active (UpdateEncoder e g)")
  case True
  have "current_scale_idx (UpdateEncoder_click e g) < kNumScales"
    using assms by (simp add: click_frame)
  then have "current_scale_idx (UpdateEncoder e g) =
     (if menu_state g = SCALE_SELECTION \<and> 0 < Increment e
        then (current_scale_idx g + 1) mod kNumScales
      else if menu_state g = SCALE_SELECTION \<and> Increment e < 0
        then (current_scale_idx g + kNumScales - 1) mod kNumScales
      else current_scale_idx g)"
    unfolding UpdateEncoder_active [OF True]
    by (simp add: press_frame select_scale_idx click_frame)
  then show ?thesis
    using True by simp
next
  case False
  have "current_scale_idx (UpdateEncoder e g) = current_scale_idx g"
    unfolding UpdateEncoder_inactive [OF False] by (simp add: click_frame)
  then show ?thesis
    using False by simp
qed

lemma UpdateEncoder_root_note:
  assumes "0 \<le> root_note_midi g" and "root_note_midi g < 108"
  shows "root_note_midi (UpdateEncoder e g) =
     (if menu_active (UpdateEncoder e g) \<and> menu_state g = ROOT_NOTE_SELECTION \<and> 0 < Increment e
        then (root_note_midi g + 1) mod 108
      else if menu_active (UpdateEncoder e g) \<and> menu_state g = ROOT_NOTE_SELECTION \<and> Increment e < 0
        then (root_note_midi g - 1) mod 108
      else root_note_midi g)"
proof (cases "menu_active (UpdateEncoder e g)")
  case True
  have "0 \<le> root_note_midi (UpdateEncoder_click e g)" "root_note_midi (UpdateEncoder_click e g) < 108"
    using assms by (simp_all add: click_frame)
  then have "root_note_midi (UpdateEncoder e g) =
     (if menu_state g = ROOT_NOTE_SELECTION \<and> 0 < Increment e
        then (root_note_midi g + 1) mod 108
      else if menu_state g = ROOT_NOTE_SELECTION \<and> Increment e < 0
        then (root_note_midi g - 1) mod 108
      else root_note_midi g)"
    unfolding UpdateEncoder_active [OF True]
    by (simp add: press_frame select_root_note click_frame)
  then show ?thesis
    using True by simp
next
  case False
  have "root_note_midi (UpdateEncoder e g) = root_note_midi g"
    unfolding UpdateEncoder_inactive [OF False] by (simp add: click_frame)
  then show ?thesis
    using False by simp
qed

lemma UpdateEncoder_in_range:
  assumes "current_scale_idx g < kNumScales" and "0 \<le> root_note_midi g" and "root_note_midi g < 108"
  shows "current_scale_idx (UpdateEncoder e g) < kNumScales \<and>
     0 \<le> root_note_midi (UpdateEncoder e g) \<and> root_note_midi (UpdateEncoder e g) < 108"
proof -
  have "current_scale_idx (UpdateEncoder e g) < kNumScales"
    unfolding UpdateEncoder_scale_idx [OF assms(1)] using assms(1) by (simp add: kNumScales_def)
  moreover have "0 \<le> root_note_midi (UpdateEncoder e g) \<and> root_note_midi (UpdateEncoder e g) < 108"
    unfolding UpdateEncoder_root_note [OF assms(2,3)] using assms(2,3) by simp
  ultimately show ?thesis by simp
qed

lemma main_loop_in_range:
  assumes "current_scale_idx g < kNumScales" and "0 \<le> root_note_midi g" and "root_note_midi g < 108"
  shows "current_scale_idx (main_loop es g) < kNumScales \<and>
     0 \<le> root_note_midi (main_loop es g) \<and> root_note_midi (main_loop es g) < 108"
  using assms
proof (induction es arbitrary: g)
  case Nil
  then show ?case by simp
next
  case (Cons e es)
  show ?case
    using Cons.IH [of "UpdateEncoder e g"] UpdateEncoder_in_range [OF Cons.prems, of e]
    by simp
qed

text \<open>Rounds in which the menu stays open and the page stays: no click, no press.\<close>

lemma UpdateEncoder_turn_only:
  assumes "menu_active g" and "\<not> RisingEdge e" and "\<not> Pressed e"
  shows "menu_active (UpdateEncoder e g)" and "menu_state (UpdateEncoder e g) = menu_state g"
proof -
  show a: "menu_active (UpdateEncoder e g)"
    using assms by (simp add: UpdateEncoder_menu_active)
  show "menu_state (UpdateEncoder e g) = menu_state g"
    using assms by (simp add: UpdateEncoder_active [OF a] press_menu_state select_frame click_frame)
qed

lemma main_loop_root_note_turns:
  assumes "menu_active g" and "menu_state g = ROOT_NOTE_SELECTION"
    and "0 \<le> root_note_midi g" and "root_note_midi g < 108"
    and "\<forall>e\<in>set es. \<not> RisingEdge e \<and> \<not> Pressed e \<and> Increment e \<noteq> 0 \<and> (0 < Increment e) = up"
  shows "root_note_midi (main_loop es g) =
     (if up then root_note_midi g + int (length es) else root_note_midi g - int (length es)) mod 108"
  using assms
proof (induction es arbitrary: g)
  case Nil
  then show ?case by simp
next
  case (Cons e es)
  let ?g = "UpdateEncoder e g"
  have e: "\<not> RisingEdge e" "\<not> Pressed e" "Increment e \<noteq> 0" "(0 < Increment e) = up"
    using Cons.prems(5) by simp_all
  have a: "menu_active ?g" "menu_state ?g = ROOT_NOTE_SELECTION"
    using UpdateEncoder_turn_only [OF Cons.prems(1) e(1,2)] Cons.prems(2) by simp_all
  have r: "root_note_midi ?g = (if up then root_note_midi g + 1 else root_note_midi g - 1) mod 108"
    using UpdateEncoder_root_note [OF Cons.prems(3,4), of e] a(1) Cons.prems(2) e(3,4) by auto
  have b: "0 \<le> root_note_midi ?g" "root_note_midi ?g < 108"
    using UpdateEncoder_in_range [of g e] Cons.prems(3,4) unfolding r by simp_all
  have "root_note_midi (main_loop es ?g) =
     (if up then root_note_midi ?g + int (length es) else root_note_midi ?g - int (length es)) mod 108"
    using Cons.IH [OF a b] Cons.prems(5) by simp
  then show ?case
    unfolding r by (simp add: mod_simps algebra_simps)
qed

lemma main_loop_scale_idx_turns:
  assumes "menu_active g" and "menu_state g = SCALE_SELECTION"
    and "current_scale_idx g < kNumScales"
    and "\<forall>e\<in>set es. \<not> RisingEdge e \<and> \<not> Pressed e \<and> Increment e \<noteq> 0 \<and> (0 < Increment e) = up"
  shows "current_scale_idx (main_loop es g) =
     (current_scale_idx g + (if up then 1 else kNumScales - 1) * length es) mod kNumScales"
  using assms
proof (induction es arbitrary: g)
  case Nil
  then show ?case by simp
next
  case (Cons e es)
  let ?g = "UpdateEncoder e g"
  have e: "\<not> RisingEdge e" "\<not> Pressed e" "Increment e \<noteq> 0" "(0 < Increment e) = up"
    using Cons.prems(4) by simp_all
  have a: "menu_active ?g" "menu_state ?g = SCALE_SELECTION"
    using UpdateEncoder_turn_only [OF Cons.prems(1) e(1,2)] Cons.prems(2) by simp_all
  have r: "current_scale_idx ?g =
      (current_scale_idx g + (if up then 1 else kNumScales - 1)) mod kNumScales"
    using UpdateEncoder_scale_idx [OF Cons.prems(3), of e] a(1) Cons.prems(2) e(3,4)
    by (auto simp: kNumScales_def add.commute)
  have b: "current_scale_idx ?g < kNumScales"
    unfolding r by (simp add: kNumScales_def)
  have "current_scale_idx (main_loop es ?g) =
     (current_scale_idx ?g + (if up then 1 else kNumScales - 1) * length es) mod kNumScales"
    using Cons.IH [OF a b] Cons.prems(4) by simp
  then show ?case
    unfolding r by (simp add: mod_simps algebra_simps)
qed

lemma UpdateEncoder_menu_state:
  "menu_state (UpdateEncoder e g) =
     (if menu_active (UpdateEncoder e g) \<and> Pressed e \<and> \<not> last_encoder_pressed g
      then (if menu_state g = SCALE_SELECTION then ROOT_NOTE_SELECTION else SCALE_SELECTION)
      else menu_state g)"
proof (cases "menu_active (UpdateEncoder e g)")
  case True
  have "menu_state (UpdateEncoder e g) =
     (if Pressed e \<and> \<not> last_encoder_pressed g
      then (if menu_state g = SCALE_SELECTION then ROOT_NOTE_SELECTION else SCALE_SELECTION)
      else menu_state g)"
    unfolding UpdateEncoder_active [OF True]
    by (simp add: press_menu_state select_frame click_frame)
  then show ?thesis
    using True by simp
next
  case False
  have "menu_state (UpdateEncoder e g) = menu_state g"
    unfolding UpdateEncoder_inactive [OF False] by (simp add: click_frame)
  then show ?thesis
    using False by simp
qed

lemma UpdateEncoder_last_pressed:
  "last_encoder_pressed (UpdateEncoder e g) =
     (if menu_active (UpdateEncoder e g) then Pressed e else last_encoder_pressed g)"
proof (cases "menu_active (UpdateEncoder e g)")
  case True
  have "last_encoder_pressed (UpdateEncoder e g) = Pressed e"
    unfolding UpdateEncoder_active [OF True] by (simp add: press_last)
  then show ?thesis
    using True by simp
next
  case False
  have "last_encoder_pressed (UpdateEncoder e g) = last_encoder_pressed g"
    unfolding UpdateEncoder_inactive [OF False] by (simp add: click_frame)
  then show ?thesis
    using False by simp
qed

lemma UpdateEncoder_display_mode:
  "display_mode (UpdateEncoder e g) =
     (if menu_active (UpdateEncoder e g) then display_mode g
      else if Increment e = 0 then display_mode (UpdateEncoder_click e g)
      else if display_mode (UpdateEncoder_click e g) = WAVEFORM then XY else WAVEFORM)"
proof (cases "menu_active (UpdateEncoder e g)")
  case True
  then have "display_mode (UpdateEncoder_click e g) = display_mode g"
    by (auto simp add: UpdateEncoder_menu_active click_display_mode split: if_splits)
  then have "display_mode (UpdateEncoder e g) = display_mode g"
    unfolding UpdateEncoder_active [OF True]
    by (simp add: press_frame select_frame)
  then show ?thesis
    using True by simp
next
  case False
  have "display_mode (UpdateEncoder e g) =
     (if Increment e = 0 then display_mode (UpdateEncoder_click e g)
      else if display_mode (UpdateEncoder_click e g) = WAVEFORM then XY else WAVEFORM)"
    unfolding UpdateEncoder_inactive [OF False] by simp
  then show ?thesis
    using False by simp
qed

lemma menu_state_flips_held_after:
  assumes "last_encoder_pressed g" and "\<forall>e\<in>set es. Pressed e"
  shows "menu_state_flips es g = 0"
  using assms
proof (induction es arbitrary: g)
  case Nil
  then show ?case by simp
next
  case (Cons e es)
  have "last_encoder_pressed (UpdateEncoder e g)"
    using Cons.prems by (simp add: UpdateEncoder_last_pressed)
  moreover have "menu_state (UpdateEncoder e g) = menu_state g"
    using Cons.prems by (simp add: UpdateEncoder_menu_state)
  ultimately show ?case
    using Cons.IH [of "UpdateEncoder e g"] Cons.prems by simp
qed

lemma menu_state_flips_held:
  assumes "\<forall>e\<in>set es. Pressed e"
  shows "menu_state_flips es g \<le> 1"
  using assms
proof (induction es arbitrary: g)
  case Nil
  then show ?case by simp
next
  case (Cons e es)
  show ?case
  proof (cases "menu_state (UpdateEncoder e g) = menu_state g")
    case True
    then show ?thesis
      using Cons.IH [of "UpdateEncoder e g"] Cons.prems by simp
  next
    case False
    then have "menu_active (UpdateEncoder e g)"
      by (simp add: UpdateEncoder_menu_state split: if_splits)
    then have "last_encoder_pressed (UpdateEncoder e g)"
      using Cons.prems by (simp add: UpdateEncoder_last_pressed)
    then have "menu_state_flips es (UpdateEncoder e g) = 0"
      using Cons.prems by (intro menu_state_flips_held_after) simp_all
    then show ?thesis
      by simp
  qed
qed

lemma main_loop_held_after:
  assumes "last_encoder_pressed g" and "\<forall>e\<in>set es. Pressed e"
  shows "menu_state (main_loop es g) = menu_state g"
  using assms
proof (induction es arbitrary: g)
  case Nil
  then show ?case by simp
next
  case (Cons e es)
  have "last_encoder_pressed (UpdateEncoder e g)"
    using Cons.prems by (simp add: UpdateEncoder_last_pressed)
  moreover have "menu_state (UpdateEncoder e g) = menu_state g"
    using Cons.prems by (simp add: UpdateEncoder_menu_state)
  ultimately show ?case
    using Cons.IH [of "UpdateEncoder e g"] Cons.prems by simp
qed

subsection \<open>Claim C3: one page toggle per press\<close>

text \<open>
  Claim C3 says that \<^verbatim>\<open>menu_state\<close> flips only on the transition of the button from not
  pressed to pressed, and that a held button toggles it exactly once. The flag
  \<^verbatim>\<open>last_encoder_pressed\<close> is read and written only inside the branch of the active menu
  (lines 421 to 431), so across rounds with the menu inactive it is not the level of the
  button one round earlier. From the initial state, a round with the button pressed and
  then a round with the button still pressed and a rising edge flip the page: the second
  round opens the menu and finds the flag clear, although the button was pressed in the
  round before. And after a round that opens the menu with the button pressed (flag set)
  and a round that closes it with the button released (flag kept), a new press held over
  four rounds, the first of which reopens the menu, flips nothing.
\<close>

theorem stale_flag_counterexample:
  "Pressed \<lparr>RisingEdge = False, Increment = 0, Pressed = True\<rparr> \<and>
   menu_state (UpdateEncoder \<lparr>RisingEdge = False, Increment = 0, Pressed = True\<rparr> initial_globals)
     = SCALE_SELECTION \<and>
   menu_state
     (UpdateEncoder \<lparr>RisingEdge = True, Increment = 0, Pressed = True\<rparr>
        (UpdateEncoder \<lparr>RisingEdge = False, Increment = 0, Pressed = True\<rparr> initial_globals))
     = ROOT_NOTE_SELECTION \<and>
   \<not> Pressed \<lparr>RisingEdge = True, Increment = 0, Pressed = False\<rparr> \<and>
   menu_active
     (UpdateEncoder \<lparr>RisingEdge = True, Increment = 0, Pressed = True\<rparr>
        (UpdateEncoder \<lparr>RisingEdge = True, Increment = 0, Pressed = False\<rparr>
           (UpdateEncoder \<lparr>RisingEdge = True, Increment = 0, Pressed = True\<rparr> initial_globals))) \<and>
   menu_state_flips
     [\<lparr>RisingEdge = True, Increment = 0, Pressed = True\<rparr>,
      \<lparr>RisingEdge = False, Increment = 0, Pressed = True\<rparr>,
      \<lparr>RisingEdge = False, Increment = 0, Pressed = True\<rparr>,
      \<lparr>RisingEdge = False, Increment = 0, Pressed = True\<rparr>]
     (UpdateEncoder \<lparr>RisingEdge = True, Increment = 0, Pressed = False\<rparr>
        (UpdateEncoder \<lparr>RisingEdge = True, Increment = 0, Pressed = True\<rparr> initial_globals)) = 0"
proof -
  let ?p = "\<lparr>RisingEdge = False, Increment = 0, Pressed = True\<rparr>"
  let ?cp = "\<lparr>RisingEdge = True, Increment = 0, Pressed = True\<rparr>"
  let ?c = "\<lparr>RisingEdge = True, Increment = 0, Pressed = False\<rparr>"
  have i: "\<not> menu_active initial_globals" "\<not> last_encoder_pressed initial_globals"
    "menu_state initial_globals = SCALE_SELECTION"
    by (simp_all add: initial_globals_def)
  have t1: "\<not> menu_active (UpdateEncoder ?p initial_globals)"
    using i by (simp add: UpdateEncoder_menu_active)
  have t1_state: "menu_state (UpdateEncoder ?p initial_globals) = SCALE_SELECTION"
    using t1 i by (simp add: UpdateEncoder_menu_state)
  have t1_flag: "\<not> last_encoder_pressed (UpdateEncoder ?p initial_globals)"
    using t1 i by (simp add: UpdateEncoder_last_pressed)
  have t2: "menu_active (UpdateEncoder ?cp (UpdateEncoder ?p initial_globals))"
    using t1 by (simp add: UpdateEncoder_menu_active)
  have t2_state: "menu_state (UpdateEncoder ?cp (UpdateEncoder ?p initial_globals))
      = ROOT_NOTE_SELECTION"
    using t2 t1_state t1_flag by (simp add: UpdateEncoder_menu_state)
  have s1: "menu_active (UpdateEncoder ?cp initial_globals)"
    using i by (simp add: UpdateEncoder_menu_active)
  have s1_flag: "last_encoder_pressed (UpdateEncoder ?cp initial_globals)"
    using s1 by (simp add: UpdateEncoder_last_pressed)
  have s2: "\<not> menu_active (UpdateEncoder ?c (UpdateEncoder ?cp initial_globals))"
    using s1 by (simp add: UpdateEncoder_menu_active)
  have s2_flag: "last_encoder_pressed (UpdateEncoder ?c (UpdateEncoder ?cp initial_globals))"
    using s2 s1_flag by (simp add: UpdateEncoder_last_pressed)
  have s3: "menu_active
      (UpdateEncoder ?cp (UpdateEncoder ?c (UpdateEncoder ?cp initial_globals)))"
    using s2 by (simp add: UpdateEncoder_menu_active)
  have "menu_state_flips [?cp, ?p, ?p, ?p]
      (UpdateEncoder ?c (UpdateEncoder ?cp initial_globals)) = 0"
    using s2_flag by (rule menu_state_flips_held_after) simp
  then show ?thesis
    using t1_state t2_state s3 by simp
qed

text \<open>
  Claim C3 as amended: a round flips \<^verbatim>\<open>menu_state\<close> exactly when the menu is active in that
  round (after its click), the button is pressed and the flag \<^verbatim>\<open>last_encoder_pressed\<close> is
  clear. A round with the menu active sets the flag to the level of the button in that
  round; a round with the menu inactive leaves the flag as it is. So over consecutive
  rounds with the menu active the flag is the level of the button one round earlier: the
  second of two such rounds flips the page exactly when the button is pressed in it and
  was not pressed in the first, and the round after one with the menu active and the
  button pressed never flips it. Over any rounds in which the button is pressed
  throughout, the page flips at most once. If the menu is active and the button is not
  pressed in one round, and is then pressed and held with no new rising edge, the page
  flips in the first round of the hold and stays as it is for the rest of it: exactly
  one flip; the same holds from any state with the menu active and the flag clear.
\<close>

theorem menu_page_toggles_once_per_press:
  "(menu_state (UpdateEncoder e g) \<noteq> menu_state g \<longleftrightarrow>
      menu_active (UpdateEncoder e g) \<and> Pressed e \<and> \<not> last_encoder_pressed g) \<and>
   (menu_active (UpdateEncoder e g) \<longrightarrow> last_encoder_pressed (UpdateEncoder e g) = Pressed e) \<and>
   (menu_active (UpdateEncoder e g) \<and> Pressed e \<longrightarrow>
      menu_state (UpdateEncoder e' (UpdateEncoder e g)) = menu_state (UpdateEncoder e g)) \<and>
   ((\<forall>e\<in>set es. Pressed e) \<longrightarrow> menu_state_flips es g \<le> 1) \<and>
   (menu_active g \<and> \<not> last_encoder_pressed g \<and> Pressed e \<and> \<not> RisingEdge e \<and>
    (\<forall>e\<in>set es. Pressed e) \<longrightarrow>
      menu_state (UpdateEncoder e g) \<noteq> menu_state g \<and>
      menu_state (main_loop (e # es) g) = menu_state (UpdateEncoder e g) \<and>
      menu_state_flips (e # es) g = 1) \<and>
   (\<not> menu_active (UpdateEncoder e g) \<longrightarrow>
      last_encoder_pressed (UpdateEncoder e g) = last_encoder_pressed g) \<and>
   (menu_active (UpdateEncoder e g) \<and> menu_active (UpdateEncoder e' (UpdateEncoder e g)) \<longrightarrow>
      (menu_state (UpdateEncoder e' (UpdateEncoder e g)) \<noteq> menu_state (UpdateEncoder e g)
         \<longleftrightarrow> Pressed e' \<and> \<not> Pressed e)) \<and>
   (menu_active (UpdateEncoder e g) \<and> \<not> Pressed e \<and> Pressed e' \<and> \<not> RisingEdge e' \<and>
    (\<forall>e\<in>set es. Pressed e) \<longrightarrow>
      menu_state (UpdateEncoder e' (UpdateEncoder e g)) \<noteq> menu_state (UpdateEncoder e g) \<and>
      menu_state (main_loop (e' # es) (UpdateEncoder e g))
        = menu_state (UpdateEncoder e' (UpdateEncoder e g)) \<and>
      menu_state_flips (e' # es) (UpdateEncoder e g) = 1)"
proof -
  have step: "menu_state (UpdateEncoder e g) \<noteq> menu_state g \<longleftrightarrow>
      menu_active (UpdateEncoder e g) \<and> Pressed e \<and> \<not> last_encoder_pressed g" for e g
    by (cases "menu_state g") (simp_all add: UpdateEncoder_menu_state)
  have flag: "menu_active (UpdateEncoder e g) \<longrightarrow> last_encoder_pressed (UpdateEncoder e g) = Pressed e"
    by (simp add: UpdateEncoder_last_pressed)
  have kept: "\<not> menu_active (UpdateEncoder e g) \<longrightarrow>
      last_encoder_pressed (UpdateEncoder e g) = last_encoder_pressed g"
    by (simp add: UpdateEncoder_last_pressed)
  have after: "menu_active (UpdateEncoder e g) \<and> Pressed e \<longrightarrow>
      menu_state (UpdateEncoder e' (UpdateEncoder e g)) = menu_state (UpdateEncoder e g)"
    by (simp add: UpdateEncoder_menu_state [of e'] UpdateEncoder_last_pressed [of e])
  have edge: "menu_active (UpdateEncoder e g) \<and> menu_active (UpdateEncoder e' (UpdateEncoder e g)) \<longrightarrow>
      (menu_state (UpdateEncoder e' (UpdateEncoder e g)) \<noteq> menu_state (UpdateEncoder e g)
         \<longleftrightarrow> Pressed e' \<and> \<not> Pressed e)"
    using step [of e' "UpdateEncoder e g"] flag by blast
  have once: "(\<forall>e\<in>set es. Pressed e) \<longrightarrow> menu_state_flips es g \<le> 1"
    using menu_state_flips_held by blast
  have held: "menu_state (UpdateEncoder e g) \<noteq> menu_state g \<and>
      menu_state (main_loop (e # es) g) = menu_state (UpdateEncoder e g) \<and>
      menu_state_flips (e # es) g = 1"
    if h: "menu_active g" "\<not> last_encoder_pressed g" "Pressed e" "\<not> RisingEdge e"
      "\<forall>e\<in>set es. Pressed e" for e g
  proof -
    have a: "menu_active (UpdateEncoder e g)"
      using h by (simp add: UpdateEncoder_menu_active)
    then have f: "menu_state (UpdateEncoder e g) \<noteq> menu_state g"
      using step h by simp
    have l: "last_encoder_pressed (UpdateEncoder e g)"
      using a h by (simp add: UpdateEncoder_last_pressed)
    show ?thesis
      using f main_loop_held_after [OF l h(5)] menu_state_flips_held_after [OF l h(5)] by simp
  qed
  have fresh: "menu_state (UpdateEncoder e' (UpdateEncoder e g)) \<noteq> menu_state (UpdateEncoder e g) \<and>
      menu_state (main_loop (e' # es) (UpdateEncoder e g))
        = menu_state (UpdateEncoder e' (UpdateEncoder e g)) \<and>
      menu_state_flips (e' # es) (UpdateEncoder e g) = 1"
    if h: "menu_active (UpdateEncoder e g)" "\<not> Pressed e" "Pressed e'" "\<not> RisingEdge e'"
      "\<forall>e\<in>set es. Pressed e"
  proof -
    have "\<not> last_encoder_pressed (UpdateEncoder e g)"
      using h(1,2) by (simp add: UpdateEncoder_last_pressed)
    then show ?thesis
      using h by (intro held) simp_all
  qed
  show ?thesis
    using step [of e g] flag kept after edge once held [of g e] fresh by blast
qed

theorem menu_page_toggles_once_per_press_witness:
  "menu_state
     (UpdateEncoder \<lparr>RisingEdge = False, Increment = 0, Pressed = True\<rparr>
        (initial_globals\<lparr>menu_active := True\<rparr>)) = ROOT_NOTE_SELECTION \<and>
   menu_state
     (main_loop (replicate 4 \<lparr>RisingEdge = False, Increment = 0, Pressed = True\<rparr>)
        (initial_globals\<lparr>menu_active := True\<rparr>)) = ROOT_NOTE_SELECTION \<and>
   menu_state_flips (replicate 4 \<lparr>RisingEdge = False, Increment = 0, Pressed = True\<rparr>)
     (initial_globals\<lparr>menu_active := True\<rparr>) = 1"
proof -
  let ?e = "\<lparr>RisingEdge = False, Increment = 0, Pressed = True\<rparr>"
  let ?g = "initial_globals\<lparr>menu_active := True\<rparr>"
  have r: "replicate 4 ?e = ?e # replicate 3 ?e"
    by (simp add: numeral_eq_Suc)
  have h: "menu_active ?g \<and> \<not> last_encoder_pressed ?g \<and> Pressed ?e \<and> \<not> RisingEdge ?e \<and>
      (\<forall>e\<in>set (replicate 3 ?e). Pressed e)"
    by (simp add: initial_globals_def)
  have s: "menu_state ?g = SCALE_SELECTION"
    by (simp add: initial_globals_def)
  have "menu_state (UpdateEncoder ?e ?g) \<noteq> menu_state ?g \<and>
      menu_state (main_loop (?e # replicate 3 ?e) ?g) = menu_state (UpdateEncoder ?e ?g) \<and>
      menu_state_flips (?e # replicate 3 ?e) ?g = 1"
    using menu_page_toggles_once_per_press [of ?e ?g _ "replicate 3 ?e"] h by blast
  then show ?thesis
    unfolding r s by (metis MenuState.exhaust)
qed

subsection \<open>Claim C6: the selection wraps around\<close>

text \<open>
  Claim C6: in a round with the menu active, a positive increment adds 1 and a negative
  increment subtracts 1 from the selection of the active page, modulo \<^term>\<open>kNumScales\<close> for
  the scale index and modulo 108 for the root note. From a state with the scale index below
  \<^term>\<open>kNumScales\<close> and the root note in \<open>[0, 108)\<close>, and so from the initial state, every
  state the main loop reaches has both in range again. 108 rounds in a row that increment
  the root note (or 108 that decrement it), and \<^term>\<open>kNumScales\<close> rounds in a row that
  increment (or decrement) the scale index, bring the value back to where it started.
\<close>

theorem menu_selection_wraps:
  assumes "current_scale_idx g < kNumScales" and "0 \<le> root_note_midi g" and "root_note_midi g < 108"
  shows "current_scale_idx (UpdateEncoder e g) =
      (if menu_active (UpdateEncoder e g) \<and> menu_state g = SCALE_SELECTION \<and> 0 < Increment e
         then (current_scale_idx g + 1) mod kNumScales
       else if menu_active (UpdateEncoder e g) \<and> menu_state g = SCALE_SELECTION \<and> Increment e < 0
         then (current_scale_idx g + kNumScales - 1) mod kNumScales
       else current_scale_idx g) \<and>
    root_note_midi (UpdateEncoder e g) =
      (if menu_active (UpdateEncoder e g) \<and> menu_state g = ROOT_NOTE_SELECTION \<and> 0 < Increment e
         then (root_note_midi g + 1) mod 108
       else if menu_active (UpdateEncoder e g) \<and> menu_state g = ROOT_NOTE_SELECTION \<and> Increment e < 0
         then (root_note_midi g - 1) mod 108
       else root_note_midi g) \<and>
    current_scale_idx (main_loop es g) < kNumScales \<and>
    0 \<le> root_note_midi (main_loop es g) \<and> root_note_midi (main_loop es g) < 108 \<and>
    current_scale_idx (main_loop es initial_globals) < kNumScales \<and>
    0 \<le> root_note_midi (main_loop es initial_globals) \<and>
    root_note_midi (main_loop es initial_globals) < 108 \<and>
    (menu_active g \<and> menu_state g = ROOT_NOTE_SELECTION \<and> length es = 108 \<and>
       ((\<forall>e\<in>set es. \<not> RisingEdge e \<and> \<not> Pressed e \<and> 0 < Increment e) \<or>
        (\<forall>e\<in>set es. \<not> RisingEdge e \<and> \<not> Pressed e \<and> Increment e < 0))
       \<longrightarrow> root_note_midi (main_loop es g) = root_note_midi g) \<and>
    (menu_active g \<and> menu_state g = SCALE_SELECTION \<and> length es = kNumScales \<and>
       ((\<forall>e\<in>set es. \<not> RisingEdge e \<and> \<not> Pressed e \<and> 0 < Increment e) \<or>
        (\<forall>e\<in>set es. \<not> RisingEdge e \<and> \<not> Pressed e \<and> Increment e < 0))
       \<longrightarrow> current_scale_idx (main_loop es g) = current_scale_idx g)"
proof -
  have reach: "current_scale_idx (main_loop es initial_globals) < kNumScales \<and>
      0 \<le> root_note_midi (main_loop es initial_globals) \<and>
      root_note_midi (main_loop es initial_globals) < 108"
    by (rule main_loop_in_range) (simp_all add: initial_globals_def kNumScales_def)
  have root: "root_note_midi (main_loop es g) = root_note_midi g"
    if m: "menu_active g" "menu_state g = ROOT_NOTE_SELECTION" and l: "length es = 108"
      and t: "(\<forall>e\<in>set es. \<not> RisingEdge e \<and> \<not> Pressed e \<and> 0 < Increment e) \<or>
        (\<forall>e\<in>set es. \<not> RisingEdge e \<and> \<not> Pressed e \<and> Increment e < 0)"
  proof -
    from t show ?thesis
    proof
      assume "\<forall>e\<in>set es. \<not> RisingEdge e \<and> \<not> Pressed e \<and> 0 < Increment e"
      then have "\<forall>e\<in>set es. \<not> RisingEdge e \<and> \<not> Pressed e \<and> Increment e \<noteq> 0
          \<and> (0 < Increment e) = True"
        by auto
      from main_loop_root_note_turns [OF m assms(2,3) this]
      show ?thesis using assms(2,3) l by simp
    next
      assume "\<forall>e\<in>set es. \<not> RisingEdge e \<and> \<not> Pressed e \<and> Increment e < 0"
      then have "\<forall>e\<in>set es. \<not> RisingEdge e \<and> \<not> Pressed e \<and> Increment e \<noteq> 0
          \<and> (0 < Increment e) = False"
        by auto
      from main_loop_root_note_turns [OF m assms(2,3) this]
      show ?thesis using assms(2,3) l by simp
    qed
  qed
  have scale: "current_scale_idx (main_loop es g) = current_scale_idx g"
    if m: "menu_active g" "menu_state g = SCALE_SELECTION" and l: "length es = kNumScales"
      and t: "(\<forall>e\<in>set es. \<not> RisingEdge e \<and> \<not> Pressed e \<and> 0 < Increment e) \<or>
        (\<forall>e\<in>set es. \<not> RisingEdge e \<and> \<not> Pressed e \<and> Increment e < 0)"
  proof -
    from t show ?thesis
    proof
      assume "\<forall>e\<in>set es. \<not> RisingEdge e \<and> \<not> Pressed e \<and> 0 < Increment e"
      then have "\<forall>e\<in>set es. \<not> RisingEdge e \<and> \<not> Pressed e \<and> Increment e \<noteq> 0
          \<and> (0 < Increment e) = True"
        by auto
      from main_loop_scale_idx_turns [OF m assms(1) this]
      show ?thesis using assms(1) l by simp
    next
      assume "\<forall>e\<in>set es. \<not> RisingEdge e \<and> \<not> Pressed e \<and> Increment e < 0"
      then have "\<forall>e\<in>set es. \<not> RisingEdge e \<and> \<not> Pressed e \<and> Increment e \<noteq> 0
          \<and> (0 < Increment e) = False"
        by auto
      from main_loop_scale_idx_turns [OF m assms(1) this]
      show ?thesis using assms(1) l by simp
    qed
  qed
  show ?thesis
    using UpdateEncoder_scale_idx [OF assms(1), of e] UpdateEncoder_root_note [OF assms(2,3), of e]
      main_loop_in_range [OF assms, of es] reach root scale
    by blast
qed

theorem menu_selection_wraps_witness:
  "root_note_midi
     (main_loop (replicate 108 \<lparr>RisingEdge = False, Increment = 1, Pressed = False\<rparr>)
        (initial_globals\<lparr>menu_active := True, menu_state := ROOT_NOTE_SELECTION\<rparr>)) = 69 \<and>
   root_note_midi
     (UpdateEncoder \<lparr>RisingEdge = False, Increment = 1, Pressed = False\<rparr>
        (initial_globals\<lparr>menu_active := True, menu_state := ROOT_NOTE_SELECTION\<rparr>)) = 70"
proof -
  let ?e = "\<lparr>RisingEdge = False, Increment = 1, Pressed = False\<rparr>"
  let ?g = "initial_globals\<lparr>menu_active := True, menu_state := ROOT_NOTE_SELECTION\<rparr>"
  have h: "current_scale_idx ?g < kNumScales" "0 \<le> root_note_midi ?g" "root_note_midi ?g < 108"
    by (simp_all add: initial_globals_def kNumScales_def)
  have m: "menu_active ?g \<and> menu_state ?g = ROOT_NOTE_SELECTION \<and> length (replicate 108 ?e) = 108 \<and>
       ((\<forall>e\<in>set (replicate 108 ?e). \<not> RisingEdge e \<and> \<not> Pressed e \<and> 0 < Increment e) \<or>
        (\<forall>e\<in>set (replicate 108 ?e). \<not> RisingEdge e \<and> \<not> Pressed e \<and> Increment e < 0))"
    by simp
  have a: "menu_active (UpdateEncoder ?e ?g)"
    by (simp add: UpdateEncoder_menu_active)
  have r: "root_note_midi ?g = 69"
    by (simp add: initial_globals_def)
  have "root_note_midi (main_loop (replicate 108 ?e) ?g) = root_note_midi ?g"
    using menu_selection_wraps [OF h, of ?e "replicate 108 ?e"] m by blast
  moreover have "root_note_midi (UpdateEncoder ?e ?g) = (root_note_midi ?g + 1) mod 108"
    using menu_selection_wraps [OF h, of ?e "replicate 108 ?e"] a by simp
  ultimately show ?thesis
    unfolding r by simp
qed

subsection \<open>Claim C7: the click that leaves the menu\<close>

text \<open>
  Claim C7 says that the second click returns \<^verbatim>\<open>menu_active\<close> to false and forces
  \<^verbatim>\<open>display_mode\<close> to the waveform view. \<^verbatim>\<open>UpdateEncoder\<close> handles the increment of the same
  round after the click (lines 433 to 440): the menu is inactive by then, so a nonzero
  increment toggles the view that the click has just reset. From the initial state, a click
  and then a click with increment 1 end with the menu closed and the XY view.
\<close>

theorem second_click_counterexample:
  "menu_active (UpdateEncoder \<lparr>RisingEdge = True, Increment = 0, Pressed = False\<rparr> initial_globals) \<and>
   \<not> menu_active
     (UpdateEncoder \<lparr>RisingEdge = True, Increment = 1, Pressed = False\<rparr>
        (UpdateEncoder \<lparr>RisingEdge = True, Increment = 0, Pressed = False\<rparr> initial_globals)) \<and>
   display_mode
     (UpdateEncoder \<lparr>RisingEdge = True, Increment = 1, Pressed = False\<rparr>
        (UpdateEncoder \<lparr>RisingEdge = True, Increment = 0, Pressed = False\<rparr> initial_globals)) = XY"
proof -
  let ?e1 = "\<lparr>RisingEdge = True, Increment = 0, Pressed = False\<rparr>"
  let ?e2 = "\<lparr>RisingEdge = True, Increment = 1, Pressed = False\<rparr>"
  have a: "menu_active (UpdateEncoder ?e1 initial_globals)"
    by (simp add: UpdateEncoder_menu_active initial_globals_def)
  have b: "\<not> menu_active (UpdateEncoder ?e2 (UpdateEncoder ?e1 initial_globals))"
    using a by (simp add: UpdateEncoder_menu_active)
  have "display_mode (UpdateEncoder_click ?e2 (UpdateEncoder ?e1 initial_globals)) = WAVEFORM"
    using a by (simp add: click_display_mode)
  then have "display_mode (UpdateEncoder ?e2 (UpdateEncoder ?e1 initial_globals)) = XY"
    using b by (simp add: UpdateEncoder_display_mode)
  then show ?thesis
    using a b by simp
qed

text \<open>
  Claim C7 as amended: the initial state has the menu inactive and the waveform view; a
  round with a rising edge toggles \<^verbatim>\<open>menu_active\<close>, from the initial state to true; a round
  with a rising edge while the menu is active returns \<^verbatim>\<open>menu_active\<close> to false and ends with
  the waveform view, whatever the view was before, when the encoder is not turned in that
  round (increment 0), and with the XY view when it is.
\<close>

theorem click_toggles_menu:
  assumes "RisingEdge e"
  shows "\<not> menu_active initial_globals \<and> display_mode initial_globals = WAVEFORM \<and>
    menu_active (UpdateEncoder e initial_globals) \<and>
    menu_active (UpdateEncoder e g) = (\<not> menu_active g) \<and>
    (menu_active g \<longrightarrow>
       display_mode (UpdateEncoder e g) = (if Increment e = 0 then WAVEFORM else XY))"
proof -
  have t: "menu_active (UpdateEncoder e g) = (\<not> menu_active g)" for g
    using assms by (simp add: UpdateEncoder_menu_active)
  have "display_mode (UpdateEncoder e g) = (if Increment e = 0 then WAVEFORM else XY)"
    if "menu_active g"
  proof -
    have "display_mode (UpdateEncoder_click e g) = WAVEFORM"
      using assms that by (simp add: click_display_mode)
    moreover have "\<not> menu_active (UpdateEncoder e g)"
      using that t by simp
    ultimately show ?thesis
      by (simp add: UpdateEncoder_display_mode)
  qed
  moreover have "\<not> menu_active initial_globals" "display_mode initial_globals = WAVEFORM"
    by (simp_all add: initial_globals_def)
  ultimately show ?thesis
    using t by simp
qed

theorem click_toggles_menu_witness:
  "menu_active
     (UpdateEncoder \<lparr>RisingEdge = True, Increment = 0, Pressed = False\<rparr>
        (initial_globals\<lparr>display_mode := XY\<rparr>)) \<and>
   \<not> menu_active
     (UpdateEncoder \<lparr>RisingEdge = True, Increment = 0, Pressed = False\<rparr>
        (UpdateEncoder \<lparr>RisingEdge = True, Increment = 0, Pressed = False\<rparr>
           (initial_globals\<lparr>display_mode := XY\<rparr>))) \<and>
   display_mode
     (UpdateEncoder \<lparr>RisingEdge = True, Increment = 0, Pressed = False\<rparr>
        (UpdateEncoder \<lparr>RisingEdge = True, Increment = 0, Pressed = False\<rparr>
           (initial_globals\<lparr>display_mode := XY\<rparr>))) = WAVEFORM"
proof -
  let ?e = "\<lparr>RisingEdge = True, Increment = 0, Pressed = False\<rparr>"
  let ?g = "initial_globals\<lparr>display_mode := XY\<rparr>"
  have h: "RisingEdge ?e" by simp
  have i: "\<not> menu_active ?g" by (simp add: initial_globals_def)
  have a: "menu_active (UpdateEncoder ?e ?g)"
    using click_toggles_menu [OF h, of ?g] i by simp
  show ?thesis
    using a click_toggles_menu [OF h, of "UpdateEncoder ?e ?g"] by simp
qed

subsection \<open>Claim C9: turning the encoder outside the menu\<close>

text \<open>
  Claim C9 says that whenever \<^verbatim>\<open>menu_active\<close> is false, any nonzero increment toggles
  \<^verbatim>\<open>display_mode\<close>. \<^verbatim>\<open>UpdateEncoder\<close> handles the click of the round first (lines 386 to
  391) and tests \<^verbatim>\<open>menu_active\<close> afterwards (line 396). From the initial state, where the
  menu is inactive, a round with a rising edge and increment 1 opens the menu and leaves
  the waveform view as it is. From a state with the menu active and the XY view, a round
  with a rising edge and increment 1 closes the menu, so that the menu is inactive when
  the increment is handled, and ends with the XY view it started with: the click resets
  the view and the increment toggles it back.
\<close>

theorem turn_with_click_counterexample:
  "\<not> menu_active initial_globals \<and> display_mode initial_globals = WAVEFORM \<and>
   Increment \<lparr>RisingEdge = True, Increment = 1, Pressed = False\<rparr> \<noteq> 0 \<and>
   display_mode (UpdateEncoder \<lparr>RisingEdge = True, Increment = 1, Pressed = False\<rparr> initial_globals)
     = WAVEFORM \<and>
   \<not> menu_active
     (UpdateEncoder \<lparr>RisingEdge = True, Increment = 1, Pressed = False\<rparr>
        (initial_globals\<lparr>menu_active := True, display_mode := XY\<rparr>)) \<and>
   display_mode
     (UpdateEncoder \<lparr>RisingEdge = True, Increment = 1, Pressed = False\<rparr>
        (initial_globals\<lparr>menu_active := True, display_mode := XY\<rparr>)) = XY"
proof -
  let ?e = "\<lparr>RisingEdge = True, Increment = 1, Pressed = False\<rparr>"
  let ?g = "initial_globals\<lparr>menu_active := True, display_mode := XY\<rparr>"
  have i: "\<not> menu_active initial_globals" "display_mode initial_globals = WAVEFORM"
    by (simp_all add: initial_globals_def)
  have a: "menu_active (UpdateEncoder ?e initial_globals)"
    using i by (simp add: UpdateEncoder_menu_active)
  have o: "display_mode (UpdateEncoder ?e initial_globals) = WAVEFORM"
    using a i by (simp add: UpdateEncoder_display_mode)
  have b: "\<not> menu_active (UpdateEncoder ?e ?g)"
    by (simp add: UpdateEncoder_menu_active)
  have "display_mode (UpdateEncoder_click ?e ?g) = WAVEFORM"
    by (simp add: click_display_mode)
  then have c: "display_mode (UpdateEncoder ?e ?g) = XY"
    using b by (simp add: UpdateEncoder_display_mode)
  show ?thesis
    using i o b c by simp
qed

text \<open>
  Claim C9 as amended: in a round without a click that starts with \<^verbatim>\<open>menu_active\<close> false,
  any nonzero increment toggles \<^verbatim>\<open>display_mode\<close> between the waveform and the XY view,
  the same way for every sign and size of the increment, and a zero increment leaves it
  unchanged. In general the toggle applies to the view as the click handling of the round
  leaves it, when the menu is inactive at that point. A round whose click opens the menu
  does not change the view, whatever the increment; a round whose click closes the menu
  ends with the waveform view for a zero increment and with the XY view for a nonzero one,
  whatever the view was before; a round without a click that starts with the menu active
  does not change the view.
\<close>

theorem display_mode_toggles_on_turn:
  "(\<not> menu_active (UpdateEncoder_click e g) \<longrightarrow>
      display_mode (UpdateEncoder e g) =
        (if Increment e = 0 then display_mode (UpdateEncoder_click e g)
         else if display_mode (UpdateEncoder_click e g) = WAVEFORM then XY else WAVEFORM)) \<and>
   (\<not> menu_active g \<and> \<not> RisingEdge e \<longrightarrow>
      display_mode (UpdateEncoder e g) =
        (if Increment e = 0 then display_mode g
         else if display_mode g = WAVEFORM then XY else WAVEFORM)) \<and>
   (\<not> menu_active g \<and> \<not> RisingEdge e \<and> \<not> RisingEdge e' \<and> Increment e \<noteq> 0 \<and> Increment e' \<noteq> 0 \<longrightarrow>
      display_mode (UpdateEncoder e g) = display_mode (UpdateEncoder e' g)) \<and>
   (\<not> menu_active g \<and> RisingEdge e \<longrightarrow> display_mode (UpdateEncoder e g) = display_mode g) \<and>
   (menu_active g \<and> RisingEdge e \<longrightarrow>
      display_mode (UpdateEncoder e g) = (if Increment e = 0 then WAVEFORM else XY)) \<and>
   (menu_active g \<and> \<not> RisingEdge e \<longrightarrow> display_mode (UpdateEncoder e g) = display_mode g)"
proof -
  have a: "menu_active (UpdateEncoder e g) = menu_active (UpdateEncoder_click e g)" for e
    by (simp add: UpdateEncoder_menu_active click_menu_active)
  have b: "display_mode (UpdateEncoder e g) =
        (if Increment e = 0 then display_mode g
         else if display_mode g = WAVEFORM then XY else WAVEFORM)"
    if "\<not> menu_active g" "\<not> RisingEdge e" for e
    using that by (simp add: UpdateEncoder_display_mode UpdateEncoder_menu_active click_display_mode)
  have c: "display_mode (UpdateEncoder e g) = display_mode (UpdateEncoder e' g)"
    if "\<not> menu_active g" "\<not> RisingEdge e" "\<not> RisingEdge e'" "Increment e \<noteq> 0" "Increment e' \<noteq> 0"
    using that b by simp
  have click_opens: "display_mode (UpdateEncoder e g) = display_mode g"
    if "\<not> menu_active g" "RisingEdge e"
    using that by (simp add: UpdateEncoder_display_mode UpdateEncoder_menu_active)
  have click_closes: "display_mode (UpdateEncoder e g) = (if Increment e = 0 then WAVEFORM else XY)"
    if "menu_active g" "RisingEdge e"
    using that by (simp add: UpdateEncoder_display_mode UpdateEncoder_menu_active click_display_mode)
  have no_click: "display_mode (UpdateEncoder e g) = display_mode g"
    if "menu_active g" "\<not> RisingEdge e"
    using that by (simp add: UpdateEncoder_display_mode UpdateEncoder_menu_active)
  have first: "\<not> menu_active (UpdateEncoder_click e g) \<longrightarrow>
      display_mode (UpdateEncoder e g) =
        (if Increment e = 0 then display_mode (UpdateEncoder_click e g)
         else if display_mode (UpdateEncoder_click e g) = WAVEFORM then XY else WAVEFORM)"
    using a [of e] by (simp add: UpdateEncoder_display_mode)
  show ?thesis
    using first b [of e] c click_opens click_closes no_click by blast
qed

theorem display_mode_toggles_on_turn_witness:
  "display_mode (UpdateEncoder \<lparr>RisingEdge = False, Increment = - 3, Pressed = False\<rparr> initial_globals) = XY \<and>
   display_mode (UpdateEncoder \<lparr>RisingEdge = False, Increment = 1, Pressed = False\<rparr> initial_globals) = XY \<and>
   display_mode (UpdateEncoder \<lparr>RisingEdge = False, Increment = 0, Pressed = False\<rparr> initial_globals)
     = WAVEFORM"
proof -
  have h: "\<not> menu_active initial_globals" "display_mode initial_globals = WAVEFORM"
    by (simp_all add: initial_globals_def)
  show ?thesis
    using h
      display_mode_toggles_on_turn
        [of "\<lparr>RisingEdge = False, Increment = - 3, Pressed = False\<rparr>" initial_globals]
      display_mode_toggles_on_turn
        [of "\<lparr>RisingEdge = False, Increment = 1, Pressed = False\<rparr>" initial_globals]
      display_mode_toggles_on_turn
        [of "\<lparr>RisingEdge = False, Increment = 0, Pressed = False\<rparr>" initial_globals]
    by simp
qed

subsection \<open>Claim C10: what a round leaves unchanged\<close>

text \<open>
  Claim C10 says that a click that toggles the menu never changes \<^verbatim>\<open>menu_state\<close>, the scale
  index or the root note. The click that opens the menu is followed, in the same call, by
  the branch of the active menu (lines 396 to 432), which applies the increment and the
  press of that round. From the initial state, a round with a rising edge, increment 1 and
  the button pressed ends with scale index 1 and the root-note page.
\<close>

theorem opening_click_counterexample:
  "current_scale_idx initial_globals = 0 \<and> menu_state initial_globals = SCALE_SELECTION \<and>
   current_scale_idx
     (UpdateEncoder \<lparr>RisingEdge = True, Increment = 1, Pressed = True\<rparr> initial_globals) = 1 \<and>
   menu_state
     (UpdateEncoder \<lparr>RisingEdge = True, Increment = 1, Pressed = True\<rparr> initial_globals)
     = ROOT_NOTE_SELECTION"
proof -
  let ?e = "\<lparr>RisingEdge = True, Increment = 1, Pressed = True\<rparr>"
  have i: "current_scale_idx initial_globals = 0" "menu_state initial_globals = SCALE_SELECTION"
    "\<not> menu_active initial_globals" "\<not> last_encoder_pressed initial_globals"
    by (simp_all add: initial_globals_def)
  have a: "menu_active (UpdateEncoder ?e initial_globals)"
    using i by (simp add: UpdateEncoder_menu_active)
  have "current_scale_idx initial_globals < kNumScales"
    using i by (simp add: kNumScales_def)
  then have "current_scale_idx (UpdateEncoder ?e initial_globals) = 1"
    using a i by (simp add: UpdateEncoder_scale_idx kNumScales_def)
  moreover have "menu_state (UpdateEncoder ?e initial_globals) = ROOT_NOTE_SELECTION"
    using a i by (simp add: UpdateEncoder_menu_state)
  ultimately show ?thesis
    using i by simp
qed

text \<open>
  Claim C10 as amended: the statements that handle the click (lines 386 to 391) change
  neither \<^verbatim>\<open>menu_state\<close> nor the scale index nor the root note. A round after which the menu
  is inactive (a click that closes the menu, or any increment while the menu stays
  inactive) changes none of the three. A round after which the menu is active (a click that
  opens it, or any increment while it stays active) does not change \<^verbatim>\<open>display_mode\<close>. A
  round with increment 0 and no new press (the button is not pressed, or
  \<^verbatim>\<open>last_encoder_pressed\<close> is already set) changes none of the three, so that closing the
  menu and reopening it with such a click preserves the selected page.
\<close>

theorem UpdateEncoder_frame:
  "menu_state (UpdateEncoder_click e g) = menu_state g \<and>
   current_scale_idx (UpdateEncoder_click e g) = current_scale_idx g \<and>
   root_note_midi (UpdateEncoder_click e g) = root_note_midi g \<and>
   (\<not> menu_active (UpdateEncoder e g) \<longrightarrow>
      menu_state (UpdateEncoder e g) = menu_state g \<and>
      current_scale_idx (UpdateEncoder e g) = current_scale_idx g \<and>
      root_note_midi (UpdateEncoder e g) = root_note_midi g) \<and>
   (menu_active (UpdateEncoder e g) \<longrightarrow> display_mode (UpdateEncoder e g) = display_mode g) \<and>
   (Increment e = 0 \<and> (\<not> Pressed e \<or> last_encoder_pressed g) \<longrightarrow>
      menu_state (UpdateEncoder e g) = menu_state g \<and>
      current_scale_idx (UpdateEncoder e g) = current_scale_idx g \<and>
      root_note_midi (UpdateEncoder e g) = root_note_midi g)"
proof -
  have inactive: "menu_state (UpdateEncoder e g) = menu_state g \<and>
      current_scale_idx (UpdateEncoder e g) = current_scale_idx g \<and>
      root_note_midi (UpdateEncoder e g) = root_note_midi g"
    if "\<not> menu_active (UpdateEncoder e g)"
    unfolding UpdateEncoder_inactive [OF that] by (simp add: click_frame)
  have active: "display_mode (UpdateEncoder e g) = display_mode g"
    if "menu_active (UpdateEncoder e g)"
    using that by (simp add: UpdateEncoder_display_mode)
  have quiet: "menu_state (UpdateEncoder e g) = menu_state g \<and>
      current_scale_idx (UpdateEncoder e g) = current_scale_idx g \<and>
      root_note_midi (UpdateEncoder e g) = root_note_midi g"
    if q: "Increment e = 0" "\<not> Pressed e \<or> last_encoder_pressed g"
  proof (cases "menu_active (UpdateEncoder e g)")
    case True
    have "UpdateEncoder e g = UpdateEncoder_press (Pressed e) (UpdateEncoder_click e g)"
      unfolding UpdateEncoder_active [OF True] q(1) select_zero ..
    then show ?thesis
      using q(2) by (auto simp add: press_frame press_menu_state click_frame)
  next
    case False
    then show ?thesis by (rule inactive)
  qed
  show ?thesis
    using inactive active quiet by (simp add: click_frame)
qed

theorem UpdateEncoder_frame_witness:
  "menu_state
     (UpdateEncoder \<lparr>RisingEdge = True, Increment = 0, Pressed = False\<rparr>
        (UpdateEncoder \<lparr>RisingEdge = True, Increment = 5, Pressed = True\<rparr>
           (initial_globals\<lparr>menu_active := True, menu_state := ROOT_NOTE_SELECTION\<rparr>)))
     = ROOT_NOTE_SELECTION \<and>
   root_note_midi
     (UpdateEncoder \<lparr>RisingEdge = True, Increment = 5, Pressed = True\<rparr>
        (initial_globals\<lparr>menu_active := True, menu_state := ROOT_NOTE_SELECTION\<rparr>)) = 69 \<and>
   display_mode
     (UpdateEncoder \<lparr>RisingEdge = False, Increment = 5, Pressed = True\<rparr>
        (initial_globals\<lparr>menu_active := True, display_mode := XY\<rparr>)) = XY"
proof -
  let ?close = "\<lparr>RisingEdge = True, Increment = 5, Pressed = True\<rparr>"
  let ?reopen = "\<lparr>RisingEdge = True, Increment = 0, Pressed = False\<rparr>"
  let ?turn = "\<lparr>RisingEdge = False, Increment = 5, Pressed = True\<rparr>"
  let ?g = "initial_globals\<lparr>menu_active := True, menu_state := ROOT_NOTE_SELECTION\<rparr>"
  let ?g' = "initial_globals\<lparr>menu_active := True, display_mode := XY\<rparr>"
  have a: "\<not> menu_active (UpdateEncoder ?close ?g)"
    by (simp add: UpdateEncoder_menu_active)
  have b: "Increment ?reopen = 0 \<and> (\<not> Pressed ?reopen \<or> last_encoder_pressed (UpdateEncoder ?close ?g))"
    by simp
  have c: "menu_active (UpdateEncoder ?turn ?g')"
    by (simp add: UpdateEncoder_menu_active)
  have "menu_state (UpdateEncoder ?close ?g) = menu_state ?g"
    "root_note_midi (UpdateEncoder ?close ?g) = root_note_midi ?g"
    using UpdateEncoder_frame [of ?close ?g] a by blast+
  moreover have "menu_state (UpdateEncoder ?reopen (UpdateEncoder ?close ?g))
      = menu_state (UpdateEncoder ?close ?g)"
    using UpdateEncoder_frame [of ?reopen "UpdateEncoder ?close ?g"] b by blast
  moreover have "display_mode (UpdateEncoder ?turn ?g') = display_mode ?g'"
    using UpdateEncoder_frame [of ?turn ?g'] c by blast
  ultimately show ?thesis
    by (simp add: initial_globals_def)
qed

section \<open>Properties of the audio callback\<close>

subsection \<open>The loop over the oscillators\<close>

lemma subharmonics_loop_step:
  "j < kNumSubharmonics \<Longrightarrow>
   subharmonics_loop osc freq j (oscs, mix_l, mix_r) =
     subharmonics_loop osc freq (j + 1)
       (if j mod 2 = 0
        then (oscs[j := snd (Process osc (SetFreq osc (freq / subharmonic_ratios ! j) (oscs ! j)))],
              mix_l + fst (Process osc (SetFreq osc (freq / subharmonic_ratios ! j) (oscs ! j))), mix_r)
        else (oscs[j := snd (Process osc (SetFreq osc (freq / subharmonic_ratios ! j) (oscs ! j)))],
              mix_l, mix_r + fst (Process osc (SetFreq osc (freq / subharmonic_ratios ! j) (oscs ! j)))))"
  by (subst subharmonics_loop.simps) (simp del: subharmonics_loop.simps add: Let_def)

lemma subharmonics_loop_done:
  "\<not> j < kNumSubharmonics \<Longrightarrow>
   subharmonics_loop osc freq j (oscs, mix_l, mix_r) = (oscs, mix_l, mix_r)"
  by (subst subharmonics_loop.simps) (simp del: subharmonics_loop.simps)

lemma subharmonics_loop_four:
  "subharmonics_loop osc freq 0 ([o0, o1, o2, o3], 0, 0) =
     ([snd (Process osc (SetFreq osc (freq / 2) o0)), snd (Process osc (SetFreq osc (freq / 3) o1)),
       snd (Process osc (SetFreq osc (freq / 4) o2)), snd (Process osc (SetFreq osc (freq / 5) o3))],
      fst (Process osc (SetFreq osc (freq / 2) o0)) + fst (Process osc (SetFreq osc (freq / 4) o2)),
      fst (Process osc (SetFreq osc (freq / 3) o1)) + fst (Process osc (SetFreq osc (freq / 5) o3)))"
  by (simp del: subharmonics_loop.simps
      add: subharmonics_loop_step subharmonics_loop_done kNumSubharmonics_def
        subharmonic_ratios_def list_update_code)

subsection \<open>Claim C8: the stereo mix\<close>

text \<open>
  Claim C8: in every frame, with \<open>f\<close> the quantized frequency, each of the 4 oscillators
  \<open>j\<close> is tuned to \<open>f / r\<^sub>j\<close> for the ratios 2, 3, 4, 5 and gives one sample \<open>s\<^sub>j\<close>; the
  samples of the oscillators 0 and 2 add up in the left channel, those of 1 and 3 in the
  right channel, and each sum is scaled by 0.5: the output of the frame is
  \<open>(0.5 * (s\<^sub>0 + s\<^sub>2), 0.5 * (s\<^sub>1 + s\<^sub>3))\<close>. Each oscillator is left in the state its own
  \<^verbatim>\<open>Process\<close> call returns.
\<close>

theorem AudioCallback_frame_mix:
  fixes osc :: "'o Oscillator"
  assumes "subharmonics a = [o0, o1, o2, o3]"
  shows "kNumSubharmonics = 4 \<and> subharmonic_ratios = [2, 3, 4, 5] \<and>
    snd (AudioCallback_frame osc g pitch_cv a) =
      (0.5 * (fst (Process osc (SetFreq osc (Quantize g (20 + pitch_cv * 1980) / 2) o0))
              + fst (Process osc (SetFreq osc (Quantize g (20 + pitch_cv * 1980) / 4) o2))),
       0.5 * (fst (Process osc (SetFreq osc (Quantize g (20 + pitch_cv * 1980) / 3) o1))
              + fst (Process osc (SetFreq osc (Quantize g (20 + pitch_cv * 1980) / 5) o3)))) \<and>
    subharmonics (fst (AudioCallback_frame osc g pitch_cv a)) =
      [snd (Process osc (SetFreq osc (Quantize g (20 + pitch_cv * 1980) / 2) o0)),
       snd (Process osc (SetFreq osc (Quantize g (20 + pitch_cv * 1980) / 3) o1)),
       snd (Process osc (SetFreq osc (Quantize g (20 + pitch_cv * 1980) / 4) o2)),
       snd (Process osc (SetFreq osc (Quantize g (20 + pitch_cv * 1980) / 5) o3))]"
  unfolding AudioCallback_frame_def Let_def assms subharmonics_loop_four
  by (simp add: write_waveform_def kNumSubharmonics_def subharmonic_ratios_def)

text \<open>
  An oscillator to evaluate the callback with: its state is the frequency it is tuned to,
  and its sample is that frequency.
\<close>

theorem AudioCallback_frame_mix_witness:
  "snd (AudioCallback_frame \<lparr>SetFreq = (\<lambda>f s. f), Process = (\<lambda>s. (s, s))\<rparr> initial_globals (7 / 33)
          (initial_audio [0, 0, 0, 0]))
     = (0.5 * (440 / 2 + 440 / 4), 0.5 * (440 / 3 + 440 / 5))"
proof -
  have "(20::real) + 7 / 33 * 1980 = 440"
    by simp
  then have q: "Quantize initial_globals (20 + 7 / 33 * 1980) = 440"
    using Quantize_default by simp
  have s: "subharmonics (initial_audio [0, 0, 0, 0::real]) = [0, 0, 0, 0]"
    by (simp add: initial_audio_def)
  show ?thesis
    using AudioCallback_frame_mix
      [OF s, of "\<lparr>SetFreq = (\<lambda>f s. f), Process = (\<lambda>s. (s, s))\<rparr>" initial_globals "7 / 33"]
    unfolding q by simp
qed

subsection \<open>The ring buffers\<close>

lemma next_index:
  assumes "i < kWaveformBufferSize"
  shows "to_size_t (int i + 1) mod kWaveformBufferSize = (i + 1) mod kWaveformBufferSize"
proof -
  have e: "int i + 1 = int (i + 1)"
    by simp
  have "to_size_t (int (i + 1)) = i + 1"
    using assms by (subst to_size_t_small) (simp_all add: kWaveformBufferSize_def)
  then show ?thesis
    unfolding e by simp
qed

lemma write_waveform_fields:
  "osc_buffer_l (write_waveform l r a) = (osc_buffer_l a)[buffer_index a := l]"
  "osc_buffer_r (write_waveform l r a) = (osc_buffer_r a)[buffer_index a := r]"
  "buffer_index (write_waveform l r a)
     = to_size_t (int (buffer_index a) + 1) mod kWaveformBufferSize"
  "subharmonics (write_waveform l r a) = subharmonics a"
  by (simp_all add: write_waveform_def)

lemma write_waveform_index_less: "buffer_index (write_waveform l r a) < kWaveformBufferSize"
  by (simp add: write_waveform_fields kWaveformBufferSize_def)

lemma frame_fields:
  "osc_buffer_l (fst (AudioCallback_frame osc g cv a))
     = (osc_buffer_l a)[buffer_index a := fst (snd (AudioCallback_frame osc g cv a))]"
  "osc_buffer_r (fst (AudioCallback_frame osc g cv a))
     = (osc_buffer_r a)[buffer_index a := snd (snd (AudioCallback_frame osc g cv a))]"
  "buffer_index (fst (AudioCallback_frame osc g cv a))
     = to_size_t (int (buffer_index a) + 1) mod kWaveformBufferSize"
  by (simp_all add: AudioCallback_frame_def Let_def write_waveform_fields)

lemma frame_is_write:
  "fst (AudioCallback_frame osc g cv a) =
     write_waveform (fst (snd (AudioCallback_frame osc g cv a)))
       (snd (snd (AudioCallback_frame osc g cv a)))
       (a\<lparr>subharmonics :=
            fst (subharmonics_loop osc (Quantize g (20 + cv * 1980)) 0 (subharmonics a, 0, 0))\<rparr>)"
  by (simp add: AudioCallback_frame_def Let_def)

lemma ring_slot_distinct:
  fixes i d n :: nat
  assumes "i < n" and "0 < d" and "d < n"
  shows "(i + d) mod n \<noteq> i"
proof (cases "i + d < n")
  case True
  then show ?thesis using assms by simp
next
  case False
  then have "(i + d) mod n = i + d - n"
    using assms by (simp add: mod_if)
  then show ?thesis
    using assms False by simp
qed

lemma AudioCallback_ring:
  assumes "length (osc_buffer_l a) = kWaveformBufferSize"
    and "length (osc_buffer_r a) = kWaveformBufferSize"
    and "buffer_index a < kWaveformBufferSize"
    and "length cvs \<le> kWaveformBufferSize"
  shows "length (snd (AudioCallback osc g cvs a)) = length cvs \<and>
    length (osc_buffer_l (fst (AudioCallback osc g cvs a))) = kWaveformBufferSize \<and>
    length (osc_buffer_r (fst (AudioCallback osc g cvs a))) = kWaveformBufferSize \<and>
    buffer_index (fst (AudioCallback osc g cvs a))
      = (buffer_index a + length cvs) mod kWaveformBufferSize \<and>
    (\<forall>i<length cvs.
       osc_buffer_l (fst (AudioCallback osc g cvs a)) ! ((buffer_index a + i) mod kWaveformBufferSize)
         = fst (snd (AudioCallback osc g cvs a) ! i) \<and>
       osc_buffer_r (fst (AudioCallback osc g cvs a)) ! ((buffer_index a + i) mod kWaveformBufferSize)
         = snd (snd (AudioCallback osc g cvs a) ! i)) \<and>
    (\<forall>k. (\<forall>i<length cvs. k \<noteq> (buffer_index a + i) mod kWaveformBufferSize) \<longrightarrow>
       osc_buffer_l (fst (AudioCallback osc g cvs a)) ! k = osc_buffer_l a ! k \<and>
       osc_buffer_r (fst (AudioCallback osc g cvs a)) ! k = osc_buffer_r a ! k)"
  using assms
proof (induction cvs arbitrary: a)
  case Nil
  then show ?case by simp
next
  case (Cons cv cvs)
  let ?B = kWaveformBufferSize
  let ?f = "AudioCallback_frame osc g cv a"
  let ?a1 = "fst ?f"
  let ?rest = "AudioCallback osc g cvs ?a1"
  let ?i = "buffer_index a"
  have res: "AudioCallback osc g (cv # cvs) a = (fst ?rest, snd ?f # snd ?rest)"
    by (simp add: Let_def)
  have i1: "buffer_index ?a1 = (?i + 1) mod ?B"
    using Cons.prems(3) by (simp add: frame_fields next_index)
  have pre: "length (osc_buffer_l ?a1) = ?B" "length (osc_buffer_r ?a1) = ?B"
    "buffer_index ?a1 < ?B" "length cvs \<le> ?B"
    using Cons.prems by (simp_all add: frame_fields kWaveformBufferSize_def)
  note IH = Cons.IH [OF pre]
  have len: "length cvs < ?B"
    using Cons.prems(4) by simp
  have slot: "(buffer_index ?a1 + j) mod ?B = (?i + Suc j) mod ?B" for j
    unfolding i1 by (simp add: mod_simps)
  have idx: "buffer_index (fst ?rest) = (?i + length (cv # cvs)) mod ?B"
    using IH slot [of "length cvs"] by simp
  have first_l: "osc_buffer_l ?a1 ! ?i = fst (snd ?f)" and first_r: "osc_buffer_r ?a1 ! ?i = snd (snd ?f)"
    using Cons.prems(1,2,3) by (simp_all add: frame_fields)
  have keep: "k \<noteq> ?i \<Longrightarrow> osc_buffer_l ?a1 ! k = osc_buffer_l a ! k \<and>
      osc_buffer_r ?a1 ! k = osc_buffer_r a ! k" for k
    by (simp add: frame_fields)
  have apart: "?i \<noteq> (buffer_index ?a1 + j) mod ?B" if "j < length cvs" for j
  proof -
    have "(?i + Suc j) mod ?B \<noteq> ?i"
      using Cons.prems(3) that len by (intro ring_slot_distinct) simp_all
    then show ?thesis
      unfolding slot by simp
  qed
  have written: "osc_buffer_l (fst ?rest) ! ((?i + n) mod ?B) = fst ((snd ?f # snd ?rest) ! n) \<and>
      osc_buffer_r (fst ?rest) ! ((?i + n) mod ?B) = snd ((snd ?f # snd ?rest) ! n)"
    if n: "n < length (cv # cvs)" for n
  proof (cases n)
    case 0
    have "osc_buffer_l (fst ?rest) ! ?i = osc_buffer_l ?a1 ! ?i \<and>
        osc_buffer_r (fst ?rest) ! ?i = osc_buffer_r ?a1 ! ?i"
      using IH apart by blast
    then show ?thesis
      using 0 Cons.prems(3) first_l first_r by simp
  next
    case (Suc j)
    then have "j < length cvs"
      using n by simp
    then have "osc_buffer_l (fst ?rest) ! ((buffer_index ?a1 + j) mod ?B) = fst (snd ?rest ! j) \<and>
        osc_buffer_r (fst ?rest) ! ((buffer_index ?a1 + j) mod ?B) = snd (snd ?rest ! j)"
      using IH by blast
    then show ?thesis
      unfolding slot Suc by simp
  qed
  have others: "osc_buffer_l (fst ?rest) ! k = osc_buffer_l a ! k \<and>
      osc_buffer_r (fst ?rest) ! k = osc_buffer_r a ! k"
    if k: "\<forall>n<length (cv # cvs). k \<noteq> (?i + n) mod ?B" for k
  proof -
    have "k \<noteq> ?i"
      using k [rule_format, of 0] Cons.prems(3) by simp
    moreover have "\<forall>j<length cvs. k \<noteq> (buffer_index ?a1 + j) mod ?B"
      unfolding slot using k by auto
    ultimately show ?thesis
      using IH keep by metis
  qed
  show ?case
    unfolding res fst_conv snd_conv
    using IH idx written others by simp
qed

lemma AudioCallback_index_less:
  "buffer_index a < kWaveformBufferSize \<Longrightarrow>
   buffer_index (fst (AudioCallback osc g cvs a)) < kWaveformBufferSize"
proof (induction cvs arbitrary: a)
  case Nil
  then show ?case by simp
next
  case (Cons cv cvs)
  have "buffer_index (fst (AudioCallback_frame osc g cv a)) < kWaveformBufferSize"
    by (simp add: frame_fields kWaveformBufferSize_def)
  then show ?case
    using Cons.IH by (simp add: Let_def)
qed

lemma ring_slot_reached:
  fixes i k n :: nat
  assumes "i < n" and "k < n"
  shows "(k + n - i) mod n < n \<and> (i + (k + n - i) mod n) mod n = k"
proof -
  have "(i + (k + n - i) mod n) mod n = (i + (k + n - i)) mod n"
    by (simp add: mod_simps)
  also have "i + (k + n - i) = k + n"
    using assms by simp
  finally show ?thesis
    using assms by simp
qed

subsection \<open>Claim C5: writing the capture buffer\<close>

text \<open>
  Claim C5 says that a value just written appears at exactly one slot of the buffer. The
  write stores the value in one slot and leaves the others as they are, so a value that was
  in the buffer before is then there more than once. The first frame of the program is such
  a case: the buffers start filled with zeros, oscillators whose first sample is 0 give the
  mix \<open>(0, 0)\<close>, and after the write at slot 0 the value 0 is in every slot.
\<close>

text \<open>
  An oscillator whose sample is 0, as the first sample of a sine oscillator that starts at
  phase 0.
\<close>

theorem written_sample_counterexample:
  "audio_sized (initial_audio [(), (), (), ()]) \<and>
   buffer_index (initial_audio [(), (), (), ()]) = 0 \<and>
   snd (AudioCallback_frame \<lparr>SetFreq = (\<lambda>f s. s), Process = (\<lambda>s. (0, s))\<rparr> initial_globals 0
          (initial_audio [(), (), (), ()])) = (0, 0) \<and>
   osc_buffer_l
     (fst (AudioCallback_frame \<lparr>SetFreq = (\<lambda>f s. s), Process = (\<lambda>s. (0, s))\<rparr> initial_globals 0
             (initial_audio [(), (), (), ()]))) ! 0 = 0 \<and>
   osc_buffer_l
     (fst (AudioCallback_frame \<lparr>SetFreq = (\<lambda>f s. s), Process = (\<lambda>s. (0, s))\<rparr> initial_globals 0
             (initial_audio [(), (), (), ()]))) ! 1 = 0 \<and>
   osc_buffer_l
     (fst (AudioCallback_frame \<lparr>SetFreq = (\<lambda>f s. s), Process = (\<lambda>s. (0, s))\<rparr> initial_globals 0
             (initial_audio [(), (), (), ()]))) ! 127 = 0"
proof -
  let ?osc = "\<lparr>SetFreq = (\<lambda>f s. s), Process = (\<lambda>s. (0, s))\<rparr> :: unit Oscillator"
  let ?a = "initial_audio [(), (), (), ()]"
  let ?f = "AudioCallback_frame ?osc initial_globals 0 ?a"
  have a: "audio_sized ?a" "buffer_index ?a = 0"
    "osc_buffer_l ?a = replicate kWaveformBufferSize 0"
    by (simp_all add: audio_sized_def initial_audio_def kNumSubharmonics_def)
  have s: "subharmonics ?a = [(), (), (), ()]"
    by (simp add: initial_audio_def)
  have out: "snd ?f = (0, 0)"
    unfolding AudioCallback_frame_def Let_def s subharmonics_loop_four by simp
  have "osc_buffer_l (fst ?f) = (replicate kWaveformBufferSize 0)[0 := 0]"
    using frame_fields(1) [of ?osc initial_globals 0 ?a] out a by simp
  then have "osc_buffer_l (fst ?f) ! 0 = 0" "osc_buffer_l (fst ?f) ! 1 = 0"
    "osc_buffer_l (fst ?f) ! 127 = 0"
    by (simp_all add: kWaveformBufferSize_def nth_list_update)
  then show ?thesis
    using a out by simp
qed

text \<open>
  Claim C5 as amended: for buffers of size \<open>B = 128\<close> and a cursor below \<open>B\<close>, writing a
  stereo sample stores the left and the right value in the two buffers at the cursor and
  changes no other slot, and moves the cursor on by 1 modulo \<open>B\<close>, so that it stays below
  \<open>B\<close>; each frame of the callback is such a write of its own output. After a callback of
  exactly \<open>B\<close> frames the cursor is back where it was and the slot \<open>(cursor + i) mod B\<close>
  holds the output of frame \<open>i\<close> in both buffers: every slot holds one of the \<open>B\<close> samples
  just written, none what it held before.
\<close>

theorem waveform_buffer_write:
  assumes "audio_sized a" and "buffer_index a < kWaveformBufferSize"
  shows "kWaveformBufferSize = 128 \<and>
    osc_buffer_l (write_waveform l r a) ! buffer_index a = l \<and>
    osc_buffer_r (write_waveform l r a) ! buffer_index a = r \<and>
    (\<forall>k. k \<noteq> buffer_index a \<longrightarrow>
       osc_buffer_l (write_waveform l r a) ! k = osc_buffer_l a ! k \<and>
       osc_buffer_r (write_waveform l r a) ! k = osc_buffer_r a ! k) \<and>
    buffer_index (write_waveform l r a) = (buffer_index a + 1) mod kWaveformBufferSize \<and>
    buffer_index (write_waveform l r a) < kWaveformBufferSize \<and>
    audio_sized (write_waveform l r a) \<and>
    fst (AudioCallback_frame osc g cv a) =
      write_waveform (fst (snd (AudioCallback_frame osc g cv a)))
        (snd (snd (AudioCallback_frame osc g cv a)))
        (a\<lparr>subharmonics :=
             fst (subharmonics_loop osc (Quantize g (20 + cv * 1980)) 0 (subharmonics a, 0, 0))\<rparr>) \<and>
    buffer_index (fst (AudioCallback osc g cvs a)) < kWaveformBufferSize \<and>
    (length cvs = kWaveformBufferSize \<longrightarrow>
       buffer_index (fst (AudioCallback osc g cvs a)) = buffer_index a \<and>
       length (snd (AudioCallback osc g cvs a)) = kWaveformBufferSize \<and>
       (\<forall>i<kWaveformBufferSize.
          osc_buffer_l (fst (AudioCallback osc g cvs a))
              ! ((buffer_index a + i) mod kWaveformBufferSize)
            = fst (snd (AudioCallback osc g cvs a) ! i) \<and>
          osc_buffer_r (fst (AudioCallback osc g cvs a))
              ! ((buffer_index a + i) mod kWaveformBufferSize)
            = snd (snd (AudioCallback osc g cvs a) ! i)) \<and>
       (\<forall>k<kWaveformBufferSize. \<exists>i<kWaveformBufferSize.
          osc_buffer_l (fst (AudioCallback osc g cvs a)) ! k
            = fst (snd (AudioCallback osc g cvs a) ! i) \<and>
          osc_buffer_r (fst (AudioCallback osc g cvs a)) ! k
            = snd (snd (AudioCallback osc g cvs a) ! i)))"
proof -
  let ?B = kWaveformBufferSize
  have sz: "length (osc_buffer_l a) = ?B" "length (osc_buffer_r a) = ?B"
    "length (subharmonics a) = kNumSubharmonics"
    using assms(1) by (simp_all add: audio_sized_def)
  have one: "osc_buffer_l (write_waveform l r a) ! buffer_index a = l \<and>
      osc_buffer_r (write_waveform l r a) ! buffer_index a = r"
    using sz assms(2) by (simp add: write_waveform_fields)
  have rest: "\<forall>k. k \<noteq> buffer_index a \<longrightarrow>
       osc_buffer_l (write_waveform l r a) ! k = osc_buffer_l a ! k \<and>
       osc_buffer_r (write_waveform l r a) ! k = osc_buffer_r a ! k"
    by (simp add: write_waveform_fields)
  have cursor: "buffer_index (write_waveform l r a) = (buffer_index a + 1) mod ?B"
    using assms(2) by (simp add: write_waveform_fields next_index)
  have sized: "audio_sized (write_waveform l r a)"
    using sz by (simp add: audio_sized_def write_waveform_fields)
  have full: "buffer_index (fst (AudioCallback osc g cvs a)) = buffer_index a \<and>
       length (snd (AudioCallback osc g cvs a)) = ?B \<and>
       (\<forall>i<?B.
          osc_buffer_l (fst (AudioCallback osc g cvs a)) ! ((buffer_index a + i) mod ?B)
            = fst (snd (AudioCallback osc g cvs a) ! i) \<and>
          osc_buffer_r (fst (AudioCallback osc g cvs a)) ! ((buffer_index a + i) mod ?B)
            = snd (snd (AudioCallback osc g cvs a) ! i)) \<and>
       (\<forall>k<?B. \<exists>i<?B.
          osc_buffer_l (fst (AudioCallback osc g cvs a)) ! k
            = fst (snd (AudioCallback osc g cvs a) ! i) \<and>
          osc_buffer_r (fst (AudioCallback osc g cvs a)) ! k
            = snd (snd (AudioCallback osc g cvs a) ! i))"
    if len: "length cvs = ?B"
  proof -
    note ring = AudioCallback_ring [OF sz(1,2) assms(2), of cvs osc g, unfolded len, OF order_refl]
    have slots: "\<forall>i<?B.
          osc_buffer_l (fst (AudioCallback osc g cvs a)) ! ((buffer_index a + i) mod ?B)
            = fst (snd (AudioCallback osc g cvs a) ! i) \<and>
          osc_buffer_r (fst (AudioCallback osc g cvs a)) ! ((buffer_index a + i) mod ?B)
            = snd (snd (AudioCallback osc g cvs a) ! i)"
      using ring by blast
    have "\<exists>i<?B.
          osc_buffer_l (fst (AudioCallback osc g cvs a)) ! k
            = fst (snd (AudioCallback osc g cvs a) ! i) \<and>
          osc_buffer_r (fst (AudioCallback osc g cvs a)) ! k
            = snd (snd (AudioCallback osc g cvs a) ! i)"
      if "k < ?B" for k
      using slots [rule_format, of "(k + ?B - buffer_index a) mod ?B"]
        ring_slot_reached [OF assms(2) that]
      by auto
    moreover have "buffer_index (fst (AudioCallback osc g cvs a)) = buffer_index a"
      using ring assms(2) by simp
    ultimately show ?thesis
      using ring slots by blast
  qed
  show ?thesis
    using one rest cursor sized full write_waveform_index_less [of l r a]
      AudioCallback_index_less [OF assms(2), of osc g cvs] frame_is_write [of osc g cv a]
    by (simp add: kWaveformBufferSize_def)
qed

theorem waveform_buffer_write_witness:
  "audio_sized (initial_audio [(), (), (), ()]) \<and>
   buffer_index (initial_audio [(), (), (), ()]) < kWaveformBufferSize \<and>
   osc_buffer_l (write_waveform 1 2 (initial_audio [(), (), (), ()])) ! 0 = 1 \<and>
   osc_buffer_r (write_waveform 1 2 (initial_audio [(), (), (), ()])) ! 0 = 2 \<and>
   osc_buffer_l (write_waveform 1 2 (initial_audio [(), (), (), ()])) ! 5 = 0 \<and>
   buffer_index (write_waveform 1 2 (initial_audio [(), (), (), ()])) = 1 \<and>
   buffer_index
     (fst (AudioCallback \<lparr>SetFreq = (\<lambda>f s. s), Process = (\<lambda>s. (1, s))\<rparr> initial_globals
             (replicate 128 0) (initial_audio [(), (), (), ()]))) = 0 \<and>
   osc_buffer_l
     (fst (AudioCallback \<lparr>SetFreq = (\<lambda>f s. s), Process = (\<lambda>s. (1, s))\<rparr> initial_globals
             (replicate 128 0) (initial_audio [(), (), (), ()]))) ! 5
     = fst (snd (AudioCallback \<lparr>SetFreq = (\<lambda>f s. s), Process = (\<lambda>s. (1, s))\<rparr> initial_globals
             (replicate 128 0) (initial_audio [(), (), (), ()])) ! 5)"
proof -
  let ?osc = "\<lparr>SetFreq = (\<lambda>f s. s), Process = (\<lambda>s. (1, s))\<rparr> :: unit Oscillator"
  let ?a = "initial_audio [(), (), (), ()]"
  have h: "audio_sized ?a" "buffer_index ?a < kWaveformBufferSize"
    by (simp_all add: audio_sized_def initial_audio_def kNumSubharmonics_def
        kWaveformBufferSize_def)
  have a: "buffer_index ?a = 0" "osc_buffer_l ?a ! 5 = 0"
    by (simp_all add: initial_audio_def kWaveformBufferSize_def)
  have l: "length (replicate 128 (0::real)) = kWaveformBufferSize"
    by (simp add: kWaveformBufferSize_def)
  note t = waveform_buffer_write [OF h, of 1 2 ?osc initial_globals 0 "replicate 128 0"]
  have w: "osc_buffer_l (write_waveform 1 2 ?a) ! 0 = 1" "osc_buffer_r (write_waveform 1 2 ?a) ! 0 = 2"
    "osc_buffer_l (write_waveform 1 2 ?a) ! 5 = 0" "buffer_index (write_waveform 1 2 ?a) = 1"
    using t a by (simp_all add: kWaveformBufferSize_def)
  have "buffer_index (fst (AudioCallback ?osc initial_globals (replicate 128 0) ?a)) = 0"
    using t l a by simp
  moreover have "osc_buffer_l (fst (AudioCallback ?osc initial_globals (replicate 128 0) ?a))
        ! ((buffer_index ?a + 5) mod kWaveformBufferSize)
      = fst (snd (AudioCallback ?osc initial_globals (replicate 128 0) ?a) ! 5)"
    using t l by (simp add: kWaveformBufferSize_def)
  ultimately show ?thesis
    using h w a by (simp add: kWaveformBufferSize_def)
qed

end
